theory Spec2Isabelle
  imports Complex_Main "HOL-Library.Multiset"
begin

section \<open>SimpleRTree: a shallow embedding of RTree.go\<close>

text \<open>
  The embedding follows \<^verbatim>\<open>RTree.go\<close> function by function.

  \<^item> A finite \<^verbatim>\<open>float64\<close> is the \<^typ>\<open>real\<close> number it stands for, and every
    arithmetic operation of the source rounds its exact result to the nearest
    \<^verbatim>\<open>float64\<close>, ties to even (\<open>fl\<close> below), each operation on its own (no fused
    multiply-add, as on amd64). Overflow to an infinity, division by zero and NaN are
    not modelled; the only infinite value the source uses, \<^verbatim>\<open>math.Inf(1)\<close>, is the
    constructor \<open>PInf\<close> of the type \<open>dist\<close> of search bounds. \<^verbatim>\<open>math.Log\<close> belongs to
    Go's library, which does not round it correctly; the builder takes it as the
    parameter \<open>Log\<close>.
  \<^item> Go's \<^verbatim>\<open>int\<close> is \<^typ>\<open>int\<close>; sizes stay far below \<open>2^63\<close>, so nothing wraps.
  \<^item> A function that can end in a run-time panic (index out of range) or in
    \<^verbatim>\<open>log.Fatal\<close> (which prints and calls \<^verbatim>\<open>os.Exit(1)\<close>) returns an \<open>outcome\<close>.
  \<^item> \<^verbatim>\<open>r.nodes\<close> is a Go slice: a list together with the capacity of its backing
    array. \<^verbatim>\<open>append\<close> on a full slice allocates a new backing array, and a pointer
    \<^verbatim>\<open>n := &r.nodes[i]\<close> taken before keeps addressing the old one.
  \<^item> The loop of \<^verbatim>\<open>build\<close>, the recursive bounding-box pass and the search loop take
    fuel; running out of fuel is the outcome \<open>OutOfFuel\<close>, and a computation that has this
    outcome for every amount of fuel does not end.
\<close>

datatype 'a outcome = Ok 'a | Panic | Exit | OutOfFuel

text \<open>Sequencing: the first outcome that is not \<open>Ok\<close> ends the computation.\<close>

fun obind :: "'a outcome \<Rightarrow> ('a \<Rightarrow> 'b outcome) \<Rightarrow> 'b outcome" where
  "obind (Ok a) f = f a"
| "obind Panic f = Panic"
| "obind Exit f = Exit"
| "obind OutOfFuel f = OutOfFuel"

text \<open>
  With this rule the definitions of the recursive functions below know, at a recursive
  call in the second argument of \<open>obind\<close>, that the first argument returned.
\<close>

lemma obind_cong [fundef_cong]:
  "m = m' \<Longrightarrow> (\<And>a. m' = Ok a \<Longrightarrow> f a = f' a) \<Longrightarrow> obind m f = obind m' f'"
  by (cases m') auto

subsection \<open>float64\<close>

text \<open>
  Rounding to the nearest integer, ties to even; the binary exponent of a real number;
  the distance between neighbouring \<^verbatim>\<open>float64\<close> values around it (53 significant bits,
  exponents from \<open>-1022\<close> on, subnormal numbers below); and the nearest \<^verbatim>\<open>float64\<close>.
\<close>

definition rne :: "real \<Rightarrow> int" where
  "rne x = (let f = \<lfloor>x\<rfloor>; d = x - of_int f
            in if d < 1 / 2 then f else if 1 / 2 < d then f + 1
               else if even f then f else f + 1)"

definition expo :: "real \<Rightarrow> int" where
  "expo x = \<lfloor>log 2 \<bar>x\<bar>\<rfloor>"

definition ulp :: "real \<Rightarrow> real" where
  "ulp x = 2 powi (max (expo x) (- 1022) - 52)"

definition fl :: "real \<Rightarrow> real" where
  "fl x = (if x = 0 then 0 else of_int (rne (x / ulp x)) * ulp x)"

text \<open>
  The operations of the source on \<^verbatim>\<open>float64\<close>: \<^verbatim>\<open>+\<close>, \<^verbatim>\<open>-\<close>, \<^verbatim>\<open>*\<close>, \<^verbatim>\<open>/\<close>, the
  conversion \<^verbatim>\<open>float64(i)\<close>, \<^verbatim>\<open>math.Sqrt\<close> (correctly rounded), \<^verbatim>\<open>math.Pow\<close> with an
  integral exponent (exact whenever the power is a \<^verbatim>\<open>float64\<close>), and \<^verbatim>\<open>math.Ceil\<close>
  (exact). \<^verbatim>\<open>int(math.Ceil(x))\<close> is \<open>\<lceil>x\<rceil>\<close>.
\<close>

definition fadd :: "real \<Rightarrow> real \<Rightarrow> real" where
  "fadd x y = fl (x + y)"

definition fsub :: "real \<Rightarrow> real \<Rightarrow> real" where
  "fsub x y = fl (x - y)"

definition fmul :: "real \<Rightarrow> real \<Rightarrow> real" where
  "fmul x y = fl (x * y)"

definition fdiv :: "real \<Rightarrow> real \<Rightarrow> real" where
  "fdiv x y = fl (x / y)"

definition float64 :: "int \<Rightarrow> real" where
  "float64 i = fl (real_of_int i)"

definition Sqrt :: "real \<Rightarrow> real" where
  "Sqrt x = fl (sqrt x)"

definition Pow :: "real \<Rightarrow> int \<Rightarrow> real" where
  "Pow x k = fl (x powi k)"

definition Ceil :: "real \<Rightarrow> real" where
  "Ceil x = real_of_int \<lceil>x\<rceil>"

subsection \<open>Bounding boxes, nodes, the tree\<close>

text \<open>
  The declaration of \<^verbatim>\<open>BBox\<close> is not among the sources; its four fields are the
  ones \<^verbatim>\<open>RTree.go\<close> and \<^verbatim>\<open>vectorBbox.go\<close> read and write.
\<close>

record BBox =
  MinX :: real
  MinY :: real
  MaxX :: real
  MaxY :: real

definition MAX_POSSIBLE_ENTRIES :: int where
  "MAX_POSSIBLE_ENTRIES = 9"

record Options =
  MAX_ENTRIES :: int

record Node =
  children :: "int list"
  childrenLength :: int
  height :: int
  isLeaf :: bool
  start :: int
  end' :: int
  BBox :: BBox

type_synonym FlatPoints = "real list"

text \<open>
  \<open>nodes_cap\<close> is the capacity of the slice \<^verbatim>\<open>r.nodes\<close>. The two pool fields of the
  Go struct only recycle allocations of queue items and are left out.
\<close>

record SimpleRTree =
  options :: Options
  nodes :: "Node list"
  nodes_cap :: nat
  points :: FlatPoints
  built :: bool

text \<open>
  The declaration of \<^verbatim>\<open>searchQueueItem\<close> is not among the sources; the search reads and
  writes its fields \<^verbatim>\<open>node\<close> and \<^verbatim>\<open>distance\<close>. The arena does not change during a
  search, so the item holds the node itself.
\<close>

record searchQueueItem =
  node :: Node
  distance :: real

text \<open>The zero values Go gives to fields that a composite literal does not mention.\<close>

definition zeroBBox :: BBox where
  "zeroBBox = \<lparr>MinX = 0, MinY = 0, MaxX = 0, MaxY = 0\<rparr>"

definition zeroNode :: Node where
  "zeroNode = \<lparr>children = [0, 0, 0, 0, 0, 0, 0, 0, 0], childrenLength = 0, height = 0, isLeaf = False,
                start = 0, end' = 0, BBox = zeroBBox\<rparr>"

text \<open>
  Modelled from the spec: \<^verbatim>\<open>BBox.extend\<close> is defined in a file that is not among the
  sources. Section 3 of the specification: \<open>merge(a,b)\<close> is the componentwise min/max.
\<close>

definition extend :: "BBox \<Rightarrow> BBox \<Rightarrow> BBox" where
  "extend b1 b2 = \<lparr>MinX = min (MinX b1) (MinX b2), MinY = min (MinY b1) (MinY b2),
                   MaxX = max (MaxX b1) (MaxX b2), MaxY = max (MaxY b1) (MaxY b2)\<rparr>"

subsection \<open>FlatPoints\<close>

definition Len :: "FlatPoints \<Rightarrow> int" where
  "Len fp = int (length fp) div 2"

definition GetPointAt :: "FlatPoints \<Rightarrow> int \<Rightarrow> (real \<times> real) outcome" where
  "GetPointAt fp i =
     (if 0 \<le> i \<and> 2 * i + 1 < int (length fp)
      then Ok (fp ! nat (2 * i), fp ! nat (2 * i + 1)) else Panic)"

definition minInt :: "int \<Rightarrow> int \<Rightarrow> int" where
  "minInt a b = (if a < b then a else b)"

definition sortFloats :: "real \<Rightarrow> real \<Rightarrow> real \<times> real" where
  "sortFloats x1 x2 = (if x1 > x2 then (x2, x1) else (x1, x2))"

definition computeSize :: "int \<Rightarrow> int" where
  "computeSize n = 2 * n"

subsection \<open>Distance bounds\<close>

definition computeDistances :: "Node \<Rightarrow> real \<Rightarrow> real \<Rightarrow> real \<times> real" where
  "computeDistances n x y =
     (if isLeaf n then
        (let d = fadd (fmul (fsub x (MinX (BBox n))) (fsub x (MinX (BBox n))))
                      (fmul (fsub y (MinY (BBox n))) (fsub y (MinY (BBox n))))
         in (d, d))
      else
        (let (minx, maxx) = sortFloats (fmul (fsub x (MinX (BBox n))) (fsub x (MinX (BBox n))))
                                       (fmul (fsub x (MaxX (BBox n))) (fsub x (MaxX (BBox n))));
             (miny, maxy) = sortFloats (fmul (fsub y (MinY (BBox n))) (fsub y (MinY (BBox n))))
                                       (fmul (fsub y (MaxY (BBox n))) (fsub y (MaxY (BBox n))));
             sideX = fmul (fsub (MaxX (BBox n)) (MinX (BBox n)))
                          (fsub (MaxX (BBox n)) (MinX (BBox n)));
             sideY = fmul (fsub (MaxY (BBox n)) (MinY (BBox n)))
                          (fsub (MaxY (BBox n)) (MinY (BBox n)));
             mind = (if maxx < sideX \<and> maxy < sideY then 0
                     else if maxx < sideX then miny
                     else if maxy < sideY then minx
                     else fadd minx miny);
             maxd = fadd maxx maxy
         in (mind, maxd)))"

subsection \<open>Construction\<close>

definition NewWithOptions :: "Options \<Rightarrow> SimpleRTree outcome" where
  "NewWithOptions opts =
     (if MAX_ENTRIES opts > MAX_POSSIBLE_ENTRIES then Exit
      else Ok \<lparr>options = opts, nodes = [], nodes_cap = 0, points = [], built = False\<rparr>)"

definition New :: "SimpleRTree outcome" where
  "New = NewWithOptions \<lparr>MAX_ENTRIES = 9\<rparr>"

text \<open>
  Reading \<^verbatim>\<open>r.nodes[k]\<close>: Go panics when \<open>k\<close> is outside the slice.
\<close>

definition node_at :: "SimpleRTree \<Rightarrow> int \<Rightarrow> Node outcome" where
  "node_at r k = (if 0 \<le> k \<and> k < int (length (nodes r)) then Ok (nodes r ! nat k) else Panic)"

text \<open>
  Inside \<^verbatim>\<open>buildNodeDownwards\<close> and \<^verbatim>\<open>setLeafNode\<close> the node is reached through
  the pointer \<^verbatim>\<open>n := &r.nodes[nodeIndex]\<close>. A frame \<open>(r, n, live)\<close> holds the tree, the
  node as seen through \<open>n\<close>, and whether \<open>n\<close> still addresses the backing array of
  \<^verbatim>\<open>r.nodes\<close>. \<open>grow\<close> is the capacity Go's run-time gives the new backing array
  (a function of the old capacity; the run-time is not part of the repository).
\<close>

type_synonym frame = "SimpleRTree \<times> Node \<times> bool"

fun append_node :: "(nat \<Rightarrow> nat) \<Rightarrow> frame \<Rightarrow> Node \<Rightarrow> frame" where
  "append_node grow (r, n, live) child =
     (if length (nodes r) < nodes_cap r
      then (r\<lparr>nodes := nodes r @ [child]\<rparr>, n, live)
      else (r\<lparr>nodes := nodes r @ [child], nodes_cap := grow (nodes_cap r)\<rparr>, n, False))"

text \<open>
  The partial sorters \<^verbatim>\<open>xSorter\<close> and \<^verbatim>\<open>ySorter\<close> are defined in a file that is not
  among the sources. The builder takes them as the parameter \<open>srt\<close>:
  \<open>srt axis start end bucketSize points\<close> is the point sequence after \<^verbatim>\<open>Sort()\<close>.
\<close>

datatype axis = X | Y

type_synonym sorter = "axis \<Rightarrow> int \<Rightarrow> int \<Rightarrow> int \<Rightarrow> FlatPoints \<Rightarrow> FlatPoints"

text \<open>
  Modelled from the spec: an instance of the missing sorters, used where a theorem
  evaluates the builder on concrete points. Section 4.2 of the specification: the sorter
  partitions the range into contiguous buckets, every point of a bucket having a
  coordinate less than or equal to that of every point of the next one, the order inside a
  bucket being unspecified. Sorting the whole range by the coordinate is such a partition
  for every bucket size.
\<close>

fun pairs :: "FlatPoints \<Rightarrow> (real \<times> real) list" where
  "pairs (x # y # fp) = (x, y) # pairs fp"
| "pairs fp = []"

fun flat :: "(real \<times> real) list \<Rightarrow> FlatPoints" where
  "flat [] = []"
| "flat ((x, y) # ps) = x # y # flat ps"

fun coordinate :: "axis \<Rightarrow> real \<times> real \<Rightarrow> real" where
  "coordinate X p = fst p"
| "coordinate Y p = snd p"

definition sortRange :: sorter where
  "sortRange a s e bucketSize fp =
     (let ps = pairs fp
      in flat (take (nat s) ps
               @ sort_key (coordinate a) (take (nat e - nat s) (drop (nat s) ps))
               @ drop (nat e) ps)
         @ drop (2 * length ps) fp)"

text \<open>
  An instance of the growth of a full slice, used where a closed theorem needs one: Go
  doubles the capacity of a small slice (and may round it up further).
\<close>

definition double_cap :: "nat \<Rightarrow> nat" where
  "double_cap c = (if c = 0 then 1 else 2 * c)"

fun write_n :: "int \<Rightarrow> (Node \<Rightarrow> Node) \<Rightarrow> frame \<Rightarrow> frame" where
  "write_n nodeIndex f (r, n, live) =
     ((if live then r\<lparr>nodes := (nodes r)[nat nodeIndex := f n]\<rparr> else r), f n, live)"

text \<open>\<^verbatim>\<open>n.children[k] = v\<close> on the array of length 9.\<close>

definition set_child :: "int \<Rightarrow> int \<Rightarrow> int \<Rightarrow> frame \<Rightarrow> frame outcome" where
  "set_child nodeIndex k v fr =
     (if 0 \<le> k \<and> k < MAX_POSSIBLE_ENTRIES
      then Ok (write_n nodeIndex (\<lambda>m. m\<lparr>children := (children m)[nat k := v]\<rparr>) fr)
      else Panic)"

text \<open>The loop of \<^verbatim>\<open>setLeafNode\<close>, from \<open>i\<close> on.\<close>

function setLeafNode_loop ::
  "(nat \<Rightarrow> nat) \<Rightarrow> int \<Rightarrow> int \<Rightarrow> int \<Rightarrow> frame \<Rightarrow> frame outcome" where
  "setLeafNode_loop grow nodeIndex i childIndex (r, n, live) =
     (if i < end' n - start n then
        obind (GetPointAt (points r) (start n + i)) (\<lambda>(x1, y1).
          let child = zeroNode\<lparr>start := start n + i, end' := start n + i + 1, isLeaf := True,
                                BBox := \<lparr>MinX = x1, MinY = y1, MaxX = x1, MaxY = y1\<rparr>\<rparr>
          in obind (set_child nodeIndex i childIndex (append_node grow (r, n, live) child))
               (\<lambda>fr. setLeafNode_loop grow nodeIndex (i + 1) (childIndex + 1) fr))
      else Ok (r, n, live))"
  by pat_completeness auto
termination
  by (relation "measure (\<lambda>(grow, nodeIndex, i, childIndex, r, n, live). nat (end' n - start n - i))")
     (auto simp: set_child_def split: if_splits)

definition setLeafNode :: "(nat \<Rightarrow> nat) \<Rightarrow> int \<Rightarrow> frame \<Rightarrow> frame outcome" where
  "setLeafNode grow nodeIndex fr =
     (let fr1 = write_n nodeIndex (\<lambda>m. m\<lparr>childrenLength := end' m - start m\<rparr>) fr;
          fr2 = write_n nodeIndex (\<lambda>m. m\<lparr>height := 1\<rparr>) fr1;
          childIndex = int (length (nodes (fst fr2)))
      in setLeafNode_loop grow nodeIndex 0 childIndex fr2)"

text \<open>
  The inner loop of \<^verbatim>\<open>buildNodeDownwards\<close> (\<^verbatim>\<open>for j := i; j < right2; j += N2\<close>), from
  \<open>j\<close> on. Every round increments \<^verbatim>\<open>n.childrenLength\<close> and writes into the array of
  length 9, so the loop ends after at most nine rounds or panics.
\<close>

function children_loop ::
  "(nat \<Rightarrow> nat) \<Rightarrow> int \<Rightarrow> int \<Rightarrow> int \<Rightarrow> int \<Rightarrow> int \<Rightarrow> frame \<Rightarrow> frame outcome" where
  "children_loop grow nodeIndex N2 right2 j childIndex (r, n, live) =
     (if j < right2 then
        (let right3 = minInt (j + N2) right2;
             child = zeroNode\<lparr>start := start n + j, end' := start n + right3,
                              height := height n - 1\<rparr>;
             fr1 = append_node grow (r, n, live) child;
             fr2 = write_n nodeIndex (\<lambda>m. m\<lparr>childrenLength := childrenLength m + 1\<rparr>) fr1
         in obind (set_child nodeIndex (childrenLength (fst (snd fr2)) - 1) childIndex fr2)
              (\<lambda>fr3. children_loop grow nodeIndex N2 right2 (j + N2) (childIndex + 1) fr3))
      else Ok (r, n, live))"
  by pat_completeness auto
termination
  by (relation "measure (\<lambda>(grow, nodeIndex, N2, right2, j, childIndex, r, n, live).
                   nat (MAX_POSSIBLE_ENTRIES - childrenLength n))")
     (auto simp: set_child_def MAX_POSSIBLE_ENTRIES_def split: if_splits)

text \<open>
  The outer loop (\<^verbatim>\<open>for i := 0; i < N; i += N1\<close>), from \<open>i\<close> on. With \<open>N1 \<le> 0\<close> the Go
  loop makes no progress and never ends; that is the outcome \<open>OutOfFuel\<close>.
\<close>

function slices_loop ::
  "sorter \<Rightarrow> (nat \<Rightarrow> nat) \<Rightarrow> int \<Rightarrow> int \<Rightarrow> int \<Rightarrow> int \<Rightarrow> int \<Rightarrow> frame \<Rightarrow> frame outcome" where
  "slices_loop srt grow nodeIndex N N1 N2 i (r, n, live) =
     (if i < N then
        (if 0 < N1 then
           (let right2 = minInt (i + N1) N;
                r1 = r\<lparr>points := srt Y (start n + i) (start n + right2) N2 (points r)\<rparr>;
                childIndex = int (length (nodes r1))
            in obind (children_loop grow nodeIndex N2 right2 i childIndex (r1, n, live))
                 (\<lambda>fr. slices_loop srt grow nodeIndex N N1 N2 (i + N1) fr))
         else OutOfFuel)
      else Ok (r, n, live))"
  by pat_completeness auto
termination
  by (relation "measure (\<lambda>(srt, grow, nodeIndex, N, N1, N2, i, fr). nat (N - i))") auto

definition buildNodeDownwards ::
  "sorter \<Rightarrow> (nat \<Rightarrow> nat) \<Rightarrow> SimpleRTree \<Rightarrow> int \<Rightarrow> bool \<Rightarrow> (SimpleRTree \<times> int) outcome" where
  "buildNodeDownwards srt grow r nodeIndex isSorted =
     obind (node_at r nodeIndex) (\<lambda>n.
       if isLeaf n then Ok (r, 0)
       else
         (let N = end' n - start n in
          if N \<le> MAX_ENTRIES (options r) then
            obind (setLeafNode grow nodeIndex (r, n, True)) (\<lambda>(r', n', live'). Ok (r', - 1))
          else
            (let M = Ceil (fdiv (float64 N)
                              (Pow (float64 (MAX_ENTRIES (options r))) (height n - 1)));
                 N2 = \<lceil>fdiv (float64 N) M\<rceil>;
                 N1 = N2 * \<lceil>Sqrt M\<rceil>;
                 r1 = (if \<not> isSorted
                       then r\<lparr>points := srt X (start n) (end' n) N1 (points r)\<rparr> else r)
             in obind (slices_loop srt grow nodeIndex N N1 N2 0 (r1, n, True))
                  (\<lambda>(r', n', live'). Ok (r', childrenLength n' - 1)))))"

text \<open>The loop of \<^verbatim>\<open>build\<close> (\<^verbatim>\<open>for nodesRemaining > 0\<close>), with fuel.\<close>

fun build_loop ::
  "nat \<Rightarrow> sorter \<Rightarrow> (nat \<Rightarrow> nat) \<Rightarrow> SimpleRTree \<Rightarrow> int \<Rightarrow> int \<Rightarrow> bool \<Rightarrow> SimpleRTree outcome"
  where
  "build_loop fuel srt grow r i nodesRemaining isSorted =
     (if nodesRemaining > 0 then
        (case fuel of
           0 \<Rightarrow> OutOfFuel
         | Suc f \<Rightarrow>
             obind (buildNodeDownwards srt grow r i isSorted) (\<lambda>(r', d).
               build_loop f srt grow r' (i + 1) (nodesRemaining + d) False))
      else Ok r)"

text \<open>\<^verbatim>\<open>n.BBox = bbox\<close> for the node at \<open>nodeIndex\<close>.\<close>

definition set_bbox :: "SimpleRTree \<Rightarrow> int \<Rightarrow> BBox \<Rightarrow> SimpleRTree" where
  "set_bbox r nodeIndex b =
     r\<lparr>nodes := (nodes r)[nat nodeIndex := (nodes r ! nat nodeIndex)\<lparr>BBox := b\<rparr>]\<rparr>"

text \<open>
  \<^verbatim>\<open>computeBBoxDownwards\<close>, with the depth of the recursion bounded by the fuel;
  \<open>extend_children\<close> is its loop \<^verbatim>\<open>for i := 1; i < n.childrenLength; i++\<close> over the
  remaining values of \<open>i\<close>.
\<close>

fun computeBBoxDownwards :: "nat \<Rightarrow> SimpleRTree \<Rightarrow> int \<Rightarrow> (SimpleRTree \<times> BBox) outcome"
  and extend_children ::
    "nat \<Rightarrow> SimpleRTree \<Rightarrow> Node \<Rightarrow> int list \<Rightarrow> BBox \<Rightarrow> (SimpleRTree \<times> BBox) outcome" where
  "computeBBoxDownwards 0 r nodeIndex = OutOfFuel"
| "computeBBoxDownwards (Suc f) r nodeIndex =
     obind (node_at r nodeIndex) (\<lambda>n.
       if isLeaf n then Ok (set_bbox r nodeIndex (BBox n), BBox n)
       else
         obind (computeBBoxDownwards f r (children n ! 0)) (\<lambda>(r1, b0).
           obind (extend_children f r1 n (map int [1..<nat (childrenLength n)]) b0)
             (\<lambda>(r2, bbox). Ok (set_bbox r2 nodeIndex bbox, bbox))))"
| "extend_children f r n [] bbox = Ok (r, bbox)"
| "extend_children f r n (i # is) bbox =
     (if i < MAX_POSSIBLE_ENTRIES then
        obind (computeBBoxDownwards f r (children n ! nat i)) (\<lambda>(r1, b1).
          extend_children f r1 n is (extend bbox b1))
      else Panic)"

definition append_slice :: "(nat \<Rightarrow> nat) \<Rightarrow> SimpleRTree \<Rightarrow> Node \<Rightarrow> SimpleRTree" where
  "append_slice grow r child = fst (append_node grow (r, child, False) child)"

definition build ::
  "nat \<Rightarrow> sorter \<Rightarrow> (nat \<Rightarrow> nat) \<Rightarrow> (real \<Rightarrow> real) \<Rightarrow> SimpleRTree \<Rightarrow> FlatPoints \<Rightarrow> bool
     \<Rightarrow> SimpleRTree outcome"
  where
  "build fuel srt grow Log r pts isSorted =
     (let r1 = r\<lparr>points := pts\<rparr>;
          r2 = r1\<lparr>nodes := [], nodes_cap := nat (computeSize (Len pts))\<rparr>;
          r3 = append_slice grow r2
                 (zeroNode\<lparr>height := \<lceil>fdiv (Log (float64 (Len pts)))
                                             (Log (float64 (MAX_ENTRIES (options r))))\<rceil>,
                            start := 0, end' := Len pts\<rparr>)
      in obind (build_loop fuel srt grow r3 0 1 isSorted) (\<lambda>r4.
           obind (computeBBoxDownwards fuel r4 0) (\<lambda>(r5, bbox). Ok r5)))"

text \<open>
  \<^verbatim>\<open>load\<close>. After the build it reads \<^verbatim>\<open>r.nodes[0]\<close> to size the pools, which are not
  modelled.
\<close>

definition load ::
  "nat \<Rightarrow> sorter \<Rightarrow> (nat \<Rightarrow> nat) \<Rightarrow> (real \<Rightarrow> real) \<Rightarrow> SimpleRTree \<Rightarrow> FlatPoints \<Rightarrow> bool
     \<Rightarrow> SimpleRTree outcome"
  where
  "load fuel srt grow Log r pts isSorted =
     (if Len pts = 0 then Ok r
      else if built r then Exit
      else obind (build fuel srt grow Log (r\<lparr>built := True\<rparr>) pts isSorted) (\<lambda>r'.
             obind (node_at r' 0) (\<lambda>rootNode. Ok r')))"

definition Load ::
  "nat \<Rightarrow> sorter \<Rightarrow> (nat \<Rightarrow> nat) \<Rightarrow> (real \<Rightarrow> real) \<Rightarrow> SimpleRTree \<Rightarrow> FlatPoints
     \<Rightarrow> SimpleRTree outcome" where
  "Load fuel srt grow Log r pts = load fuel srt grow Log r pts False"

definition LoadSortedArray ::
  "nat \<Rightarrow> sorter \<Rightarrow> (nat \<Rightarrow> nat) \<Rightarrow> (real \<Rightarrow> real) \<Rightarrow> SimpleRTree \<Rightarrow> FlatPoints
     \<Rightarrow> SimpleRTree outcome" where
  "LoadSortedArray fuel srt grow Log r pts = load fuel srt grow Log r pts True"

subsection \<open>Nearest point search\<close>

text \<open>Search bounds: a squared distance or \<^verbatim>\<open>math.Inf(1)\<close>.\<close>

datatype dist = Fin real | PInf

fun lt_bound :: "real \<Rightarrow> dist \<Rightarrow> bool" where
  "lt_bound a (Fin b) = (a < b)"
| "lt_bound a PInf = True"

fun le_bound :: "real \<Rightarrow> dist \<Rightarrow> bool" where
  "le_bound a (Fin b) = (a \<le> b)"
| "le_bound a PInf = True"

fun gt_bound :: "real \<Rightarrow> dist \<Rightarrow> bool" where
  "gt_bound a (Fin b) = (a > b)"
| "gt_bound a PInf = False"

fun sqrt_dist :: "dist \<Rightarrow> dist" where
  "sqrt_dist (Fin a) = Fin (Sqrt a)"
| "sqrt_dist PInf = PInf"

text \<open>
  Modelled from the spec: the type \<^verbatim>\<open>searchQueue\<close> and its ordering are defined in a
  file that is not among the sources. Section 4.4 of the specification: a min-priority
  queue keyed by ascending lower-bound squared distance. The queue is a list kept in
  ascending order of \<open>distance\<close>; \<open>heap_Pop\<close> is only called on a non-empty queue.
\<close>

definition heap_Push :: "searchQueueItem list \<Rightarrow> searchQueueItem \<Rightarrow> searchQueueItem list" where
  "heap_Push sq item = insort_key distance item sq"

definition heap_Pop :: "searchQueueItem list \<Rightarrow> searchQueueItem \<times> searchQueueItem list" where
  "heap_Pop sq = (hd sq, tl sq)"

text \<open>
  The loop over the children of a popped internal node
  (\<^verbatim>\<open>for i := 0; i < item.node.childrenLength; i++\<close>), over the remaining values of \<open>i\<close>.
\<close>

fun push_children ::
  "SimpleRTree \<Rightarrow> real \<Rightarrow> real \<Rightarrow> Node \<Rightarrow> int list \<Rightarrow> searchQueueItem list \<Rightarrow> dist
     \<Rightarrow> (searchQueueItem list \<times> dist) outcome" where
  "push_children r x y pn [] sq distanceUpperBound = Ok (sq, distanceUpperBound)"
| "push_children r x y pn (i # is) sq distanceUpperBound =
     (if i < MAX_POSSIBLE_ENTRIES then
        obind (node_at r (children pn ! nat i)) (\<lambda>n.
          let (mind, maxd) = computeDistances n x y;
              sq1 = (if le_bound mind distanceUpperBound
                     then heap_Push sq \<lparr>node = n, distance = mind\<rparr> else sq);
              ub1 = (if lt_bound maxd distanceUpperBound then Fin maxd else distanceUpperBound)
          in push_children r x y pn is sq1 ub1)
      else Panic)"

text \<open>The main loop (\<^verbatim>\<open>for sq.Len() > 0\<close>), with fuel.\<close>

fun search_loop ::
  "nat \<Rightarrow> SimpleRTree \<Rightarrow> real \<Rightarrow> real \<Rightarrow> searchQueueItem list \<Rightarrow> searchQueueItem option
     \<Rightarrow> dist \<Rightarrow> dist \<Rightarrow> (searchQueueItem option \<times> dist) outcome" where
  "search_loop fuel r x y sq minItem distanceLowerBound distanceUpperBound =
     (if sq \<noteq> [] then
        (case fuel of
           0 \<Rightarrow> OutOfFuel
         | Suc f \<Rightarrow>
             (let (item, sq1) = heap_Pop sq;
                  currentDistance = distance item
              in if minItem \<noteq> None \<and> gt_bound currentDistance distanceLowerBound
                 then Ok (minItem, distanceUpperBound)
                 else if isLeaf (node item)
                 then search_loop f r x y sq1 (Some item) (Fin currentDistance) distanceUpperBound
                 else obind (push_children r x y (node item)
                               (map int [0..<nat (childrenLength (node item))])
                               sq1 distanceUpperBound)
                        (\<lambda>(sq2, ub2). search_loop f r x y sq2 minItem distanceLowerBound ub2)))
      else Ok (minItem, distanceUpperBound))"

text \<open>
  The results are \<open>(x1, y1, d1, found)\<close>; the named results keep their zero values when
  nothing is found.
\<close>

definition findNearestPointWithin ::
  "nat \<Rightarrow> SimpleRTree \<Rightarrow> real \<Rightarrow> real \<Rightarrow> dist \<Rightarrow> (real \<times> real \<times> dist \<times> bool) outcome" where
  "findNearestPointWithin fuel r x y d =
     obind (node_at r 0) (\<lambda>rootNode.
       let (mind, maxd) = computeDistances rootNode x y;
           ub = (if lt_bound maxd d then Fin maxd else d);
           sq = (if lt_bound mind ub then heap_Push [] \<lparr>node = rootNode, distance = mind\<rparr>
                 else [])
       in obind (search_loop fuel r x y sq None PInf ub) (\<lambda>(minItem, ub1).
            case minItem of
              None \<Rightarrow> Ok (0, 0, Fin 0, False)
            | Some item \<Rightarrow>
                Ok (MaxX (BBox (node item)), MaxY (BBox (node item)), sqrt_dist ub1, True)))"

definition FindNearestPointWithin ::
  "nat \<Rightarrow> SimpleRTree \<Rightarrow> real \<Rightarrow> real \<Rightarrow> real \<Rightarrow> (real \<times> real \<times> dist \<times> bool) outcome" where
  "FindNearestPointWithin fuel r x y d = findNearestPointWithin fuel r x y (Fin (fmul d d))"

definition FindNearestPoint ::
  "nat \<Rightarrow> SimpleRTree \<Rightarrow> real \<Rightarrow> real \<Rightarrow> (real \<times> real \<times> dist \<times> bool) outcome" where
  "FindNearestPoint fuel r x y = findNearestPointWithin fuel r x y PInf"

subsection \<open>Concrete nodes, trees and inputs\<close>

text \<open>
  Shorthands for the values on which the builder and the search are evaluated below: an
  internal node, the leaf of the point \<open>(x, y)\<close> at position \<open>i\<close>, and a tree given by its
  fan-out cap, its \<^verbatim>\<open>built\<close> flag, its points, its arena and the capacity of the arena.
\<close>

definition inner :: "int list \<Rightarrow> int \<Rightarrow> int \<Rightarrow> int \<Rightarrow> int \<Rightarrow> BBox \<Rightarrow> Node" where
  "inner cs cl h s e b =
     \<lparr>children = cs, childrenLength = cl, height = h, isLeaf = False, start = s, end' = e,
      BBox = b\<rparr>"

definition leaf_at :: "int \<Rightarrow> real \<Rightarrow> real \<Rightarrow> Node" where
  "leaf_at i x y =
     \<lparr>children = [0, 0, 0, 0, 0, 0, 0, 0, 0], childrenLength = 0, height = 0, isLeaf = True,
      start = i, end' = i + 1, BBox = \<lparr>MinX = x, MinY = y, MaxX = x, MaxY = y\<rparr>\<rparr>"

definition tree_of :: "int \<Rightarrow> bool \<Rightarrow> FlatPoints \<Rightarrow> Node list \<Rightarrow> nat \<Rightarrow> SimpleRTree" where
  "tree_of M b pts ns c =
     \<lparr>options = \<lparr>MAX_ENTRIES = M\<rparr>, nodes = ns, nodes_cap = c, points = pts, built = b\<rparr>"

text \<open>One point; the tree that \<^verbatim>\<open>Load\<close> builds from it with the default fan-out cap 9.\<close>

definition pts1 :: FlatPoints where
  "pts1 = [0, 0]"

definition tree1 :: SimpleRTree where
  "tree1 = tree_of 9 True pts1
     [inner [1, 0, 0, 0, 0, 0, 0, 0, 0] 1 1 0 1 \<lparr>MinX = 0, MinY = 0, MaxX = 0, MaxY = 0\<rparr>,
      leaf_at 0 0 0] 2"

text \<open>Two points; the tree that \<^verbatim>\<open>Load\<close> builds from them with the default fan-out cap 9.\<close>

definition pts2 :: FlatPoints where
  "pts2 = [0, 0, 1, 1]"

definition tree2 :: SimpleRTree where
  "tree2 = tree_of 9 True pts2
     [inner [1, 2, 0, 0, 0, 0, 0, 0, 0] 2 1 0 2 \<lparr>MinX = 0, MinY = 0, MaxX = 1, MaxY = 1\<rparr>,
      leaf_at 0 0 0, leaf_at 1 1 1] 4"

text \<open>Three points; the tree that \<^verbatim>\<open>Load\<close> builds from them with fan-out cap 2.\<close>

definition pts3 :: FlatPoints where
  "pts3 = [0, 0, 1, 1, 2, 2]"


text \<open>
  Six points, and the arena that the loop of \<^verbatim>\<open>build\<close> leaves for them with fan-out
  cap 2. It has 13 nodes; the slice was made with capacity 12.
\<close>

definition pts6 :: FlatPoints where
  "pts6 = [0, 0, 1, 1, 2, 2, 3, 3, 4, 4, 5, 5]"

definition arena6 :: "(nat \<Rightarrow> nat) \<Rightarrow> SimpleRTree" where
  "arena6 grow = tree_of 2 True pts6
     [inner [1, 2, 0, 0, 0, 0, 0, 0, 0] 2 3 0 6 zeroBBox,
      inner [3, 4, 0, 0, 0, 0, 0, 0, 0] 2 2 0 3 zeroBBox,
      inner [5, 6, 0, 0, 0, 0, 0, 0, 0] 2 2 3 6 zeroBBox,
      inner [7, 8, 0, 0, 0, 0, 0, 0, 0] 2 1 0 2 zeroBBox,
      inner [9, 0, 0, 0, 0, 0, 0, 0, 0] 1 1 2 3 zeroBBox,
      inner [10, 11, 0, 0, 0, 0, 0, 0, 0] 2 1 3 5 zeroBBox,
      inner [0, 0, 0, 0, 0, 0, 0, 0, 0] 1 1 5 6 zeroBBox,
      leaf_at 0 0 0,
      leaf_at 1 1 1,
      leaf_at 2 2 2,
      leaf_at 3 3 3,
      leaf_at 4 4 4,
      leaf_at 5 5 5] (grow 12)"

subsection \<open>Notions used in the statements\<close>

definition inBox :: "BBox \<Rightarrow> real \<Rightarrow> real \<Rightarrow> bool" where
  "inBox b px py = (MinX b \<le> px \<and> px \<le> MaxX b \<and> MinY b \<le> py \<and> py \<le> MaxY b)"

text \<open>A node without its bounding box, and the arena without its bounding boxes.\<close>

definition strip :: "Node \<Rightarrow> Node" where
  "strip n = n\<lparr>BBox := zeroBBox\<rparr>"

definition skeleton :: "SimpleRTree \<Rightarrow> Node list" where
  "skeleton r = map strip (nodes r)"

text \<open>
  What the loops of the builder keep while they work on the node at \<open>k\<close>: the arena is
  not empty, the root has height \<open>H\<close>, the options are \<open>opts\<close>, and if \<open>k\<close> is the root then
  the node seen through the pointer has height \<open>H\<close> too.
\<close>

fun root_inv :: "int \<Rightarrow> int \<Rightarrow> Options \<Rightarrow> frame \<Rightarrow> bool" where
  "root_inv k H opts (r, n, live) =
     (nodes r \<noteq> [] \<and> height (nodes r ! 0) = H \<and> options r = opts
      \<and> (nat k = 0 \<longrightarrow> height n = H))"

text \<open>
  The sizes of a slice (\<open>N1\<close>) and of a child (\<open>N2\<close>) that \<^verbatim>\<open>buildNodeDownwards\<close> computes
  for a node of \<open>N\<close> points and height \<open>h\<close> under the fan-out cap \<open>M\<close>.
\<close>

definition slice_N2 :: "int \<Rightarrow> int \<Rightarrow> int \<Rightarrow> int" where
  "slice_N2 N M h = \<lceil>fdiv (float64 N) (Ceil (fdiv (float64 N) (Pow (float64 M) (h - 1))))\<rceil>"

definition slice_N1 :: "int \<Rightarrow> int \<Rightarrow> int \<Rightarrow> int" where
  "slice_N1 N M h =
     slice_N2 N M h * \<lceil>Sqrt (Ceil (fdiv (float64 N) (Pow (float64 M) (h - 1))))\<rceil>"

text \<open>
  Two trees, and two frames, of the same shape: they agree on everything but the points
  and the bounding boxes.
\<close>

definition same_shape :: "SimpleRTree \<Rightarrow> SimpleRTree \<Rightarrow> bool" where
  "same_shape r r' =
     (skeleton r = skeleton r' \<and> nodes_cap r = nodes_cap r' \<and> options r = options r')"

fun same_frame :: "frame \<Rightarrow> frame \<Rightarrow> bool" where
  "same_frame (r, n, live) (r', n', live') =
     (same_shape r r' \<and> strip n = strip n' \<and> live = live')"




text \<open>
  The notions of the invariant of the loop of \<^verbatim>\<open>build\<close>. The \<open>core\<close> of a node is what the
  builder never changes once the node is in the arena; its \<open>positions\<close> are the
  positions \<open>start, \<dots>, end - 1\<close> of the point sequence that it covers. A node is \<open>fresh\<close>
  when the builder has appended it and not yet worked on it. \<open>leaf_ok fp n\<close>: the leaf
  \<open>n\<close> covers one position, and its box is the point of \<open>fp\<close> at that position.
\<close>

definition core :: "Node \<Rightarrow> bool \<times> int \<times> int" where
  "core n = (isLeaf n, start n, end' n)"









text \<open>
  The loops of the builder work on the node at \<open>k\<close> through a pointer, and append nodes to
  the arena. \<open>frame_ok k fr\<close>: \<open>k\<close> is an index of the arena of the frame \<open>fr\<close>, and the
  node seen through the pointer has the core of the node at \<open>k\<close>. \<open>grows k fr fr' cs\<close>:
  the arena of \<open>fr'\<close> is the arena of \<open>fr\<close> with the nodes \<open>cs\<close> appended and the node at
  \<open>k\<close> replaced by one of the same core.
\<close>

fun frame_ok :: "int \<Rightarrow> frame \<Rightarrow> bool" where
  "frame_ok k (r, n, live) =
     (0 \<le> k \<and> nat k < length (nodes r) \<and> core (nodes r ! nat k) = core n)"

fun grows :: "int \<Rightarrow> frame \<Rightarrow> frame \<Rightarrow> Node list \<Rightarrow> bool" where
  "grows k (r, n, live) (r', n', live') cs =
     ((\<exists>m. nodes r' = (nodes r)[nat k := m] @ cs \<and> core m = core n) \<and> core n' = core n)"


section \<open>Evaluating the model\<close>

lemma obind_eq_Ok: "obind m f = Ok b \<longleftrightarrow> (\<exists>a. m = Ok a \<and> f a = Ok b)"
  by (cases m) auto

lemma obind_weak_cong [cong]: "m = m' \<Longrightarrow> obind m f = obind m' f"
  by simp

declare build_loop.simps [simp del]
declare setLeafNode_loop.simps [simp del]
declare children_loop.simps [simp del]
declare slices_loop.simps [simp del]
declare search_loop.simps [simp del]

subsection \<open>Rounding\<close>

lemma rne_of_int [simp]: "rne (of_int z) = z"
  by (simp add: rne_def)

lemma rne_mono: "x \<le> y \<Longrightarrow> rne x \<le> rne y"
proof -
  assume xy: "x \<le> y"
  have fx: "of_int \<lfloor>x\<rfloor> \<le> x" "x < of_int \<lfloor>x\<rfloor> + 1" by linarith+
  have fy: "of_int \<lfloor>y\<rfloor> \<le> y" "y < of_int \<lfloor>y\<rfloor> + 1" by linarith+
  have ff: "\<lfloor>x\<rfloor> \<le> \<lfloor>y\<rfloor>" using xy by (rule floor_mono)
  show ?thesis
  proof (cases "\<lfloor>x\<rfloor> = \<lfloor>y\<rfloor>")
    case True
    then show ?thesis using xy unfolding rne_def Let_def by auto
  next
    case False
    then have "\<lfloor>x\<rfloor> + 1 \<le> \<lfloor>y\<rfloor>" using ff by simp
    moreover have "rne x \<le> \<lfloor>x\<rfloor> + 1" unfolding rne_def Let_def by auto
    moreover have "\<lfloor>y\<rfloor> \<le> rne y" unfolding rne_def Let_def by auto
    ultimately show ?thesis by linarith
  qed
qed

lemma rne_minus: "rne (- x) = - rne x"
proof (cases "x = of_int \<lfloor>x\<rfloor>")
  case True
  then obtain z where "x = of_int z" ..
  then have "- x = of_int (- z)" by simp
  then show ?thesis using \<open>x = of_int z\<close> by (metis rne_of_int)
next
  case False
  then have lt: "of_int \<lfloor>x\<rfloor> < x" "x < of_int \<lfloor>x\<rfloor> + 1" by linarith+
  have "real_of_int (- \<lfloor>x\<rfloor> - 1) \<le> - x" "- x < real_of_int (- \<lfloor>x\<rfloor> - 1) + 1"
    using lt by linarith+
  then have fm: "\<lfloor>- x\<rfloor> = - \<lfloor>x\<rfloor> - 1" by (rule floor_unique)
  have ev: "even (- \<lfloor>x\<rfloor> - 1) \<longleftrightarrow> \<not> even \<lfloor>x\<rfloor>" by simp
  show ?thesis unfolding rne_def Let_def fm ev by (auto simp: field_simps)
qed

lemma expo_bounds:
  assumes "x \<noteq> 0"
  shows "2 powi expo x \<le> \<bar>x\<bar>" "\<bar>x\<bar> < 2 powi (expo x + 1)"
proof -
  have pos: "0 < \<bar>x\<bar>" using assms by simp
  have "of_int (expo x) \<le> log 2 \<bar>x\<bar>" unfolding expo_def by linarith
  then have "2 powr of_int (expo x) \<le> \<bar>x\<bar>" using pos by (simp add: le_log_iff)
  then show "2 powi expo x \<le> \<bar>x\<bar>" by (simp add: powr_real_of_int')
  have "log 2 \<bar>x\<bar> < of_int (expo x + 1)" unfolding expo_def by linarith
  then have "\<bar>x\<bar> < 2 powr of_int (expo x + 1)" using pos by (simp add: log_less_iff del: of_int_add)
  moreover have "(2::real) powr of_int (expo x + 1) = 2 powi (expo x + 1)"
    by (rule powr_real_of_int') simp_all
  ultimately show "\<bar>x\<bar> < 2 powi (expo x + 1)" by simp
qed

lemma expo_eqI:
  assumes "2 powi e \<le> \<bar>x\<bar>" "\<bar>x\<bar> < 2 powi (e + 1)"
  shows "expo x = e"
proof -
  have pos: "0 < \<bar>x\<bar>" using assms(1) by (smt (verit) zero_less_power_int)
  have "2 powr of_int e \<le> \<bar>x\<bar>" using assms(1) by (simp add: powr_real_of_int')
  then have a: "of_int e \<le> log 2 \<bar>x\<bar>" using pos by (simp add: le_log_iff)
  have "(2::real) powr of_int (e + 1) = 2 powi (e + 1)"
    by (rule powr_real_of_int') simp_all
  then have "\<bar>x\<bar> < 2 powr of_int (e + 1)" using assms(2) by simp
  then have b: "log 2 \<bar>x\<bar> < of_int (e + 1)" using pos by (simp add: log_less_iff del: of_int_add)
  show ?thesis unfolding expo_def using a b by (intro floor_unique) auto
qed


lemma pow2_less_iff: "(2::real) powi a < 2 powi b \<longleftrightarrow> a < b"
proof
  assume l: "(2::real) powi a < 2 powi b"
  show "a < b"
  proof (rule ccontr)
    assume "\<not> a < b"
    then have "b \<le> a" by simp
    then have "(2::real) powi b \<le> 2 powi a" by (rule power_int_increasing) simp
    with l show False by simp
  qed
next
  assume "a < b"
  then show "(2::real) powi a < 2 powi b" by (rule power_int_strict_increasing) simp
qed

lemma pow2_le_iff: "(2::real) powi a \<le> 2 powi b \<longleftrightarrow> a \<le> b"
  using pow2_less_iff[of b a] by (simp add: not_less [symmetric])

lemma pow2_pos [simp]: "0 < (2::real) powi a"
  by (rule zero_less_power_int) simp

lemma ulp_pos [simp]: "0 < ulp x"
  by (simp add: ulp_def)

lemma ulp_nonneg [simp]: "0 \<le> ulp x"
  by (simp add: ulp_def)

lemma ulp_neq0 [simp]: "ulp x \<noteq> 0"
  by (simp add: ulp_def)

lemma expo_minus [simp]: "expo (- x) = expo x"
  by (simp add: expo_def)

lemma ulp_minus [simp]: "ulp (- x) = ulp x"
  by (simp add: ulp_def)

lemma fl_minus: "fl (- x) = - fl x"
  by (simp add: fl_def rne_minus)

lemma fl_0 [simp]: "fl 0 = 0"
  by (simp add: fl_def)

lemma fl_exact:
  assumes m: "\<bar>m\<bar> < 2 ^ 53" and k: "- 1074 \<le> k"
  shows "fl (of_int m * 2 powi k) = of_int m * 2 powi k"
proof (cases "m = 0")
  case True
  then show ?thesis by simp
next
  case False
  define x where "x = real_of_int m * 2 powi k"
  define q where "q = max (expo x) (- 1022) - 52"
  have x0: "x \<noteq> 0" using False by (simp add: x_def)
  have ax: "\<bar>x\<bar> = real_of_int \<bar>m\<bar> * 2 powi k" by (simp add: x_def abs_mult)
  have "real_of_int \<bar>m\<bar> < 2 ^ 53" using m by (metis of_int_less_numeral_power_cancel_iff)
  then have "\<bar>x\<bar> < 2 ^ 53 * 2 powi k" unfolding ax by (simp add: mult_strict_right_mono)
  also have "\<dots> = 2 powi (53 + k)" by (simp add: power_int_add)
  finally have "2 powi expo x < (2::real) powi (53 + k)"
    using expo_bounds(1)[OF x0] by simp
  then have "expo x < 53 + k" by (simp add: pow2_less_iff)
  then have qk: "q \<le> k" using k by (simp add: q_def)
  have u: "ulp x = 2 powi q" by (simp add: ulp_def q_def)
  have "2 powi k = (2::real) powi (k - q) * 2 powi q"
    by (simp flip: power_int_add)
  also have "(2::real) powi (k - q) = 2 ^ nat (k - q)"
    using qk by (simp add: power_int_nonneg_exp)
  finally have "x = real_of_int (m * 2 ^ nat (k - q)) * 2 powi q"
    by (simp add: x_def)
  then have "x / 2 powi q = real_of_int (m * 2 ^ nat (k - q))"
    by (simp add: field_simps)
  then have "x / ulp x = real_of_int (m * 2 ^ nat (k - q))"
    by (simp only: u)
  then have "rne (x / ulp x) = m * 2 ^ nat (k - q)" by (simp only: rne_of_int)
  then have "fl x = real_of_int (m * 2 ^ nat (k - q)) * ulp x" using x0 by (simp add: fl_def)
  also have "\<dots> = x / ulp x * ulp x" using \<open>x / ulp x = _\<close> by simp
  also have "\<dots> = x" by simp
  finally show ?thesis by (simp add: x_def)
qed

lemma fl_nonneg: "0 \<le> x \<Longrightarrow> 0 \<le> fl x"
proof -
  assume "0 \<le> x"
  then have "0 \<le> x / ulp x" by simp
  then have "rne 0 \<le> rne (x / ulp x)" by (rule rne_mono)
  moreover have "rne 0 = 0" using rne_of_int[of 0] by simp
  ultimately show ?thesis by (simp add: fl_def)
qed

lemma expo_mono:
  assumes "0 < x" "x \<le> y"
  shows "expo x \<le> expo y"
proof -
  have "log 2 \<bar>x\<bar> \<le> log 2 \<bar>y\<bar>" using assms by simp
  then show ?thesis unfolding expo_def by (rule floor_mono)
qed

lemma fl_mono_pos:
  assumes "0 < x" "x \<le> y"
  shows "fl x \<le> fl y"
proof -
  define qx where "qx = max (expo x) (- 1022)"
  define qy where "qy = max (expo y) (- 1022)"
  have x0: "x \<noteq> 0" and y0: "y \<noteq> 0" using assms by auto
  have ux: "ulp x = 2 powi (qx - 52)" and uy: "ulp y = 2 powi (qy - 52)"
    by (simp_all add: ulp_def qx_def qy_def)
  have fx: "fl x = of_int (rne (x / ulp x)) * ulp x" using x0 by (simp add: fl_def)
  have fy: "fl y = of_int (rne (y / ulp y)) * ulp y" using y0 by (simp add: fl_def)
  have le: "qx \<le> qy" using expo_mono[OF assms] by (simp add: qx_def qy_def)
  show ?thesis
  proof (cases "qx = qy")
    case True
    then have "ulp x = ulp y" by (simp add: ux uy)
    moreover have "rne (x / ulp y) \<le> rne (y / ulp y)"
      using assms by (intro rne_mono divide_right_mono) simp_all
    ultimately show ?thesis unfolding fx fy by (simp add: mult_right_mono)
  next
    case False
    then have lt: "qx + 1 \<le> qy" using le by simp
    then have ey: "qy = expo y" by (auto simp: qx_def qy_def)
    have "x < 2 powi (expo x + 1)" using expo_bounds(2)[OF x0] assms by simp
    also have "\<dots> \<le> 2 powi (qx + 1)" by (simp add: pow2_le_iff qx_def)
    finally have "x / ulp x < 2 powi (qx + 1) / 2 powi (qx - 52)"
      unfolding ux by (simp add: divide_strict_right_mono)
    also have "\<dots> = (2::real) powi 53"
      by (simp flip: power_int_diff)
    finally have "x / ulp x \<le> real_of_int (2 ^ 53)" by simp
    then have "rne (x / ulp x) \<le> rne (real_of_int (2 ^ 53))" by (rule rne_mono)
    then have "rne (x / ulp x) \<le> 2 ^ 53" by (simp only: rne_of_int)
    then have "real_of_int (rne (x / ulp x)) \<le> 2 ^ 53"
      by (metis of_int_le_numeral_power_cancel_iff)
    then have "fl x \<le> 2 ^ 53 * 2 powi (qx - 52)"
      unfolding fx ux by (simp add: mult_right_mono)
    also have "\<dots> = 2 powi (qx + 1)"
      using power_int_add[of "2::real" 53 "qx - 52"] by (simp add: add.commute)
    also have "\<dots> \<le> 2 powi qy" using lt by (simp add: pow2_le_iff)
    finally have a: "fl x \<le> 2 powi qy" .
    have "2 powi qy \<le> y" using expo_bounds(1)[OF y0] assms by (simp add: ey)
    then have "2 powi qy / 2 powi (qy - 52) \<le> y / ulp y"
      unfolding uy by (simp add: divide_right_mono)
    moreover have "2 powi qy / 2 powi (qy - 52) = (2::real) powi 52"
      by (simp flip: power_int_diff)
    ultimately have "real_of_int (2 ^ 52) \<le> y / ulp y" by simp
    then have "rne (real_of_int (2 ^ 52)) \<le> rne (y / ulp y)" by (rule rne_mono)
    then have "2 ^ 52 \<le> rne (y / ulp y)" by (simp only: rne_of_int)
    then have "2 ^ 52 \<le> real_of_int (rne (y / ulp y))"
      by (metis numeral_power_le_of_int_cancel_iff)
    then have "2 ^ 52 * 2 powi (qy - 52) \<le> fl y"
      unfolding fy uy by (simp add: mult_right_mono)
    moreover have "2 ^ 52 * 2 powi (qy - 52) = (2::real) powi qy"
      using power_int_add[of "2::real" 52 "qy - 52"] by simp
    ultimately show ?thesis using a by simp
  qed
qed

lemma fl_mono:
  assumes "x \<le> y"
  shows "fl x \<le> fl y"
proof -
  consider "0 < x" | "y < 0" | "x \<le> 0" "0 \<le> y" using assms by linarith
  then show ?thesis
  proof cases
    case 1
    then show ?thesis using assms by (rule fl_mono_pos)
  next
    case 2
    then have "fl (- y) \<le> fl (- x)" using assms by (intro fl_mono_pos) simp_all
    then show ?thesis by (simp add: fl_minus)
  next
    case 3
    have "0 \<le> fl (- x)" using 3 by (intro fl_nonneg) simp
    then have "fl x \<le> 0" by (simp add: fl_minus)
    moreover have "0 \<le> fl y" using 3 by (intro fl_nonneg)
    ultimately show ?thesis by simp
  qed
qed

lemma rne_eqI:
  assumes "\<bar>x - real_of_int m\<bar> < 1 / 2"
  shows "rne x = m"
proof -
  have a: "x - real_of_int m < 1 / 2" "- (x - real_of_int m) < 1 / 2"
    using assms unfolding abs_less_iff by simp_all
  have "real_of_int (m - 1) = real_of_int m - 1" "real_of_int (m + 1) = real_of_int m + 1"
    by simp_all
  with a have "real_of_int (m - 1) \<le> x" "x < real_of_int (m + 1)"
    by linarith+
  then have "m - 1 \<le> \<lfloor>x\<rfloor>" "\<lfloor>x\<rfloor> < m + 1"
    by (simp_all only: le_floor_iff floor_less_iff)
  then have "\<lfloor>x\<rfloor> = m \<or> \<lfloor>x\<rfloor> = m - 1" by linarith
  then show ?thesis
  proof
    assume f: "\<lfloor>x\<rfloor> = m"
    then have "x - real_of_int \<lfloor>x\<rfloor> < 1 / 2" using a by simp
    then show ?thesis using f by (simp add: rne_def Let_def)
  next
    assume f: "\<lfloor>x\<rfloor> = m - 1"
    then have "1 / 2 < x - real_of_int \<lfloor>x\<rfloor>" using a by simp
    then show ?thesis using f by (simp add: rne_def Let_def)
  qed
qed

lemma fl_eqI:
  assumes "2 powi e \<le> \<bar>x\<bar>" "\<bar>x\<bar> < 2 powi (e + 1)" "- 1022 \<le> e"
    and "\<bar>x / 2 powi (e - 52) - real_of_int m\<bar> < 1 / 2"
  shows "fl x = real_of_int m * 2 powi (e - 52)"
proof -
  have x0: "x \<noteq> 0" using assms(1) by (smt (verit) pow2_pos)
  have "expo x = e" using assms(1,2) by (rule expo_eqI)
  then have "ulp x = 2 powi (e - 52)" using assms(3) by (simp add: ulp_def)
  moreover have "rne (x / 2 powi (e - 52)) = m" using assms(4) by (rule rne_eqI)
  ultimately show ?thesis using x0 by (simp add: fl_def)
qed

text \<open>The values of \<^verbatim>\<open>float64\<close> that the evaluations below meet are exact.\<close>

lemma fl_of_int: "\<bar>i\<bar> < 2 ^ 53 \<Longrightarrow> fl (real_of_int i) = real_of_int i"
  using fl_exact[of i 0] by simp

lemma fl_numeral: "numeral n < (2::int) ^ 53 \<Longrightarrow> fl (numeral n) = numeral n"
  using fl_of_int[of "numeral n"] by simp

lemma fl_1: "fl 1 = 1"
  using fl_of_int[of 1] by simp

lemma fl_dyadic:
  "fl (1 / 2) = 1 / 2" "fl (3 / 2) = 3 / 2" "fl (5 / 2) = 5 / 2" "fl (1 / 4) = 1 / 4"
  "fl (5 / 4) = 5 / 4"
  using fl_exact[of 1 "- 1"] fl_exact[of 3 "- 1"] fl_exact[of 5 "- 1"] fl_exact[of 1 "- 2"]
    fl_exact[of 5 "- 2"]
  by (simp_all add: power_int_minus_divide)

lemma fl_between:
  assumes "a \<le> x" "x \<le> b" "fl a = a" "fl b = b"
  shows "a \<le> fl x" "fl x \<le> b"
  using fl_mono[OF assms(1)] fl_mono[OF assms(2)] assms(3,4) by simp_all

lemma float64_exact: "\<bar>i\<bar> < 2 ^ 53 \<Longrightarrow> float64 i = real_of_int i"
  by (simp add: float64_def fl_of_int)

lemma ceiling_Sqrt_2: "\<lceil>Sqrt 2\<rceil> = 2"
proof -
  have "5 / 4 \<le> sqrt 2" by (rule real_le_rsqrt) (simp add: power2_eq_square)
  moreover have "sqrt 2 \<le> 3 / 2" by (rule real_le_lsqrt) (simp_all add: power2_eq_square)
  ultimately have "5 / 4 \<le> fl (sqrt 2)" "fl (sqrt 2) \<le> 3 / 2"
    by (rule fl_between; simp add: fl_dyadic)+
  then show ?thesis unfolding Sqrt_def by (intro ceiling_unique) simp_all
qed

text \<open>
  The quotient of line 176, with the exact natural logarithm for \<^verbatim>\<open>math.Log\<close>: for three
  and for six points under the fan-out cap 2 it lies between \<open>3/2\<close> and \<open>2\<close> and between
  \<open>5/2\<close> and \<open>3\<close>.
\<close>

lemma log2_bounds: "3 / 2 \<le> log 2 3" "log 2 3 \<le> 2" "5 / 2 \<le> log 2 6" "log 2 6 \<le> 3"
proof -
  have "log 2 (3 ^ 2) = 2 * log 2 3" by (subst log_nat_power) simp_all
  moreover have "3 \<le> log 2 (3 ^ 2)" by (simp add: le_log_iff)
  ultimately show "3 / 2 \<le> log 2 3" by simp
  have "log 2 (6 ^ 2) = 2 * log 2 6" by (subst log_nat_power) simp_all
  moreover have "5 \<le> log 2 (6 ^ 2)" by (simp add: le_log_iff)
  ultimately show "5 / 2 \<le> log 2 6" by simp
  show "log 2 3 \<le> 2" by (simp add: log_le_iff)
  show "log 2 6 \<le> 3" by (simp add: log_le_iff)
qed

lemma ceiling_fdiv_ln: "\<lceil>fdiv (ln 3) (ln 2)\<rceil> = 2" "\<lceil>fdiv (ln 6) (ln 2)\<rceil> = 3"
proof -
  have e: "ln 3 / ln 2 = log 2 3" "ln 6 / ln 2 = log 2 (6::real)" by (simp_all add: log_def)
  have "3 / 2 \<le> fl (log 2 3)" "fl (log 2 3) \<le> 2"
    by (rule fl_between[OF log2_bounds(1,2)]; simp add: fl_dyadic fl_numeral)+
  then show "\<lceil>fdiv (ln 3) (ln 2)\<rceil> = 2"
    unfolding fdiv_def e by (intro ceiling_unique) simp_all
  have "5 / 2 \<le> fl (log 2 6)" "fl (log 2 6) \<le> 3"
    by (rule fl_between[OF log2_bounds(3,4)]; simp add: fl_dyadic fl_numeral)+
  then show "\<lceil>fdiv (ln 6) (ln 2)\<rceil> = 3"
    unfolding fdiv_def e by (intro ceiling_unique) simp_all
qed

lemmas float_facts =
  fadd_def fsub_def fmul_def fdiv_def float64_exact Pow_def Ceil_def fl_0 fl_1 fl_numeral fl_minus
  fl_dyadic ceiling_Sqrt_2

subsection \<open>Concrete nodes and trees\<close>

lemma inner_sel:
  "children (inner cs cl h s e b) = cs" "childrenLength (inner cs cl h s e b) = cl"
  "height (inner cs cl h s e b) = h" "start (inner cs cl h s e b) = s"
  "end' (inner cs cl h s e b) = e" "isLeaf (inner cs cl h s e b) = False"
  "BBox (inner cs cl h s e b) = b"
  "(inner cs cl h s e b)\<lparr>children := cs'\<rparr> = inner cs' cl h s e b"
  "(inner cs cl h s e b)\<lparr>childrenLength := cl'\<rparr> = inner cs cl' h s e b"
  "(inner cs cl h s e b)\<lparr>height := h'\<rparr> = inner cs cl h' s e b"
  "(inner cs cl h s e b)\<lparr>BBox := b'\<rparr> = inner cs cl h s e b'"
  "zeroNode\<lparr>start := s, end' := e, height := h\<rparr> = inner [0, 0, 0, 0, 0, 0, 0, 0, 0] 0 h s e zeroBBox"
  "zeroNode\<lparr>height := h, start := s, end' := e\<rparr> = inner [0, 0, 0, 0, 0, 0, 0, 0, 0] 0 h s e zeroBBox"
  by (simp_all add: inner_def zeroNode_def)

lemma leaf_sel:
  "isLeaf (leaf_at i x y) = True"
  "BBox (leaf_at i x y) = \<lparr>MinX = x, MinY = y, MaxX = x, MaxY = y\<rparr>"
  "(leaf_at i x y)\<lparr>BBox := \<lparr>MinX = x, MinY = y, MaxX = x, MaxY = y\<rparr>\<rparr> = leaf_at i x y"
  by (simp_all add: leaf_at_def)

lemma leaf_fold:
  "zeroNode\<lparr>start := 0, end' := 1, isLeaf := True, BBox := \<lparr>MinX = x, MinY = y, MaxX = x, MaxY = y\<rparr>\<rparr> = leaf_at 0 x y"
  "zeroNode\<lparr>start := 1, end' := 2, isLeaf := True, BBox := \<lparr>MinX = x, MinY = y, MaxX = x, MaxY = y\<rparr>\<rparr> = leaf_at 1 x y"
  "zeroNode\<lparr>start := 2, end' := 3, isLeaf := True, BBox := \<lparr>MinX = x, MinY = y, MaxX = x, MaxY = y\<rparr>\<rparr> = leaf_at 2 x y"
  "zeroNode\<lparr>start := 3, end' := 4, isLeaf := True, BBox := \<lparr>MinX = x, MinY = y, MaxX = x, MaxY = y\<rparr>\<rparr> = leaf_at 3 x y"
  "zeroNode\<lparr>start := 4, end' := 5, isLeaf := True, BBox := \<lparr>MinX = x, MinY = y, MaxX = x, MaxY = y\<rparr>\<rparr> = leaf_at 4 x y"
  "zeroNode\<lparr>start := 5, end' := 6, isLeaf := True, BBox := \<lparr>MinX = x, MinY = y, MaxX = x, MaxY = y\<rparr>\<rparr> = leaf_at 5 x y"
  by (simp_all add: leaf_at_def zeroNode_def)

lemma tree_of_sel:
  "nodes (tree_of M b pts ns c) = ns" "nodes_cap (tree_of M b pts ns c) = c"
  "points (tree_of M b pts ns c) = pts" "built (tree_of M b pts ns c) = b"
  "MAX_ENTRIES (options (tree_of M b pts ns c)) = M"
  "(tree_of M b pts ns c)\<lparr>nodes := ns'\<rparr> = tree_of M b pts ns' c"
  "(tree_of M b pts ns c)\<lparr>nodes_cap := c'\<rparr> = tree_of M b pts ns c'"
  "(tree_of M b pts ns c)\<lparr>points := pts'\<rparr> = tree_of M b pts' ns c"
  "(tree_of M b pts ns c)\<lparr>built := b'\<rparr> = tree_of M b' pts ns c"
  by (simp_all add: tree_of_def)

lemma Len_pts: "Len [] = 0" "Len pts1 = 1" "Len pts2 = 2" "Len pts3 = 3" "Len pts6 = 6"
  by (simp_all add: Len_def pts1_def pts2_def pts3_def pts6_def)

lemma GetPointAt_pts:
  "GetPointAt pts1 0 = Ok (0, 0)"
  "GetPointAt pts2 0 = Ok (0, 0)" "GetPointAt pts2 1 = Ok (1, 1)"
  "GetPointAt pts3 0 = Ok (0, 0)" "GetPointAt pts3 1 = Ok (1, 1)" "GetPointAt pts3 2 = Ok (2, 2)"
  "GetPointAt pts6 0 = Ok (0, 0)" "GetPointAt pts6 1 = Ok (1, 1)" "GetPointAt pts6 2 = Ok (2, 2)"
  "GetPointAt pts6 3 = Ok (3, 3)" "GetPointAt pts6 4 = Ok (4, 4)" "GetPointAt pts6 5 = Ok (5, 5)"
  by (simp_all add: GetPointAt_def pts1_def pts2_def pts3_def pts6_def)

lemma sortRange_pts:
  "sortRange a 0 3 b pts3 = pts3"
  "sortRange a 0 6 b pts6 = pts6" "sortRange a 0 3 b pts6 = pts6" "sortRange a 3 6 b pts6 = pts6"
  by (cases a; simp add: sortRange_def pts3_def pts6_def)+

lemmas eval_build =
  buildNodeDownwards_def node_at_def inner_sel leaf_sel leaf_fold tree_of_sel float_facts Let_def
  slices_loop.simps children_loop.simps minInt_def set_child_def MAX_POSSIBLE_ENTRIES_def
  setLeafNode_def setLeafNode_loop.simps GetPointAt_pts sortRange_pts

subsection \<open>The steps of the builder on the concrete inputs\<close>

lemma step1_0:
  "buildNodeDownwards srt grow (tree_of 9 True pts1
     [inner [0, 0, 0, 0, 0, 0, 0, 0, 0] 0 h 0 1 zeroBBox] 2) 0 s
   = Ok (tree_of 9 True pts1
     [inner [1, 0, 0, 0, 0, 0, 0, 0, 0] 1 1 0 1 zeroBBox,
      leaf_at 0 0 0] 2, -1)"
  by (simp add: eval_build)

lemma step2_0:
  "buildNodeDownwards srt grow (tree_of 9 True pts2
     [inner [0, 0, 0, 0, 0, 0, 0, 0, 0] 0 h 0 2 zeroBBox] 4) 0 s
   = Ok (tree_of 9 True pts2
     [inner [1, 2, 0, 0, 0, 0, 0, 0, 0] 2 1 0 2 zeroBBox,
      leaf_at 0 0 0,
      leaf_at 1 1 1] 4, -1)"
  by (simp add: eval_build)




lemma step6_0:
  "buildNodeDownwards sortRange grow (tree_of 2 True pts6
     [inner [0, 0, 0, 0, 0, 0, 0, 0, 0] 0 3 0 6 zeroBBox] 12) 0 s
   = Ok (tree_of 2 True pts6
     [inner [1, 2, 0, 0, 0, 0, 0, 0, 0] 2 3 0 6 zeroBBox,
      inner [0, 0, 0, 0, 0, 0, 0, 0, 0] 0 2 0 3 zeroBBox,
      inner [0, 0, 0, 0, 0, 0, 0, 0, 0] 0 2 3 6 zeroBBox] 12, 1)"
  by (simp add: eval_build)

lemma step6_1:
  "buildNodeDownwards sortRange grow (tree_of 2 True pts6
     [inner [1, 2, 0, 0, 0, 0, 0, 0, 0] 2 3 0 6 zeroBBox,
      inner [0, 0, 0, 0, 0, 0, 0, 0, 0] 0 2 0 3 zeroBBox,
      inner [0, 0, 0, 0, 0, 0, 0, 0, 0] 0 2 3 6 zeroBBox] 12) 1 s
   = Ok (tree_of 2 True pts6
     [inner [1, 2, 0, 0, 0, 0, 0, 0, 0] 2 3 0 6 zeroBBox,
      inner [3, 4, 0, 0, 0, 0, 0, 0, 0] 2 2 0 3 zeroBBox,
      inner [0, 0, 0, 0, 0, 0, 0, 0, 0] 0 2 3 6 zeroBBox,
      inner [0, 0, 0, 0, 0, 0, 0, 0, 0] 0 1 0 2 zeroBBox,
      inner [0, 0, 0, 0, 0, 0, 0, 0, 0] 0 1 2 3 zeroBBox] 12, 1)"
  by (simp add: eval_build)

lemma step6_2:
  "buildNodeDownwards sortRange grow (tree_of 2 True pts6
     [inner [1, 2, 0, 0, 0, 0, 0, 0, 0] 2 3 0 6 zeroBBox,
      inner [3, 4, 0, 0, 0, 0, 0, 0, 0] 2 2 0 3 zeroBBox,
      inner [0, 0, 0, 0, 0, 0, 0, 0, 0] 0 2 3 6 zeroBBox,
      inner [0, 0, 0, 0, 0, 0, 0, 0, 0] 0 1 0 2 zeroBBox,
      inner [0, 0, 0, 0, 0, 0, 0, 0, 0] 0 1 2 3 zeroBBox] 12) 2 s
   = Ok (tree_of 2 True pts6
     [inner [1, 2, 0, 0, 0, 0, 0, 0, 0] 2 3 0 6 zeroBBox,
      inner [3, 4, 0, 0, 0, 0, 0, 0, 0] 2 2 0 3 zeroBBox,
      inner [5, 6, 0, 0, 0, 0, 0, 0, 0] 2 2 3 6 zeroBBox,
      inner [0, 0, 0, 0, 0, 0, 0, 0, 0] 0 1 0 2 zeroBBox,
      inner [0, 0, 0, 0, 0, 0, 0, 0, 0] 0 1 2 3 zeroBBox,
      inner [0, 0, 0, 0, 0, 0, 0, 0, 0] 0 1 3 5 zeroBBox,
      inner [0, 0, 0, 0, 0, 0, 0, 0, 0] 0 1 5 6 zeroBBox] 12, 1)"
  by (simp add: eval_build)

lemma step6_3:
  "buildNodeDownwards sortRange grow (tree_of 2 True pts6
     [inner [1, 2, 0, 0, 0, 0, 0, 0, 0] 2 3 0 6 zeroBBox,
      inner [3, 4, 0, 0, 0, 0, 0, 0, 0] 2 2 0 3 zeroBBox,
      inner [5, 6, 0, 0, 0, 0, 0, 0, 0] 2 2 3 6 zeroBBox,
      inner [0, 0, 0, 0, 0, 0, 0, 0, 0] 0 1 0 2 zeroBBox,
      inner [0, 0, 0, 0, 0, 0, 0, 0, 0] 0 1 2 3 zeroBBox,
      inner [0, 0, 0, 0, 0, 0, 0, 0, 0] 0 1 3 5 zeroBBox,
      inner [0, 0, 0, 0, 0, 0, 0, 0, 0] 0 1 5 6 zeroBBox] 12) 3 s
   = Ok (tree_of 2 True pts6
     [inner [1, 2, 0, 0, 0, 0, 0, 0, 0] 2 3 0 6 zeroBBox,
      inner [3, 4, 0, 0, 0, 0, 0, 0, 0] 2 2 0 3 zeroBBox,
      inner [5, 6, 0, 0, 0, 0, 0, 0, 0] 2 2 3 6 zeroBBox,
      inner [7, 8, 0, 0, 0, 0, 0, 0, 0] 2 1 0 2 zeroBBox,
      inner [0, 0, 0, 0, 0, 0, 0, 0, 0] 0 1 2 3 zeroBBox,
      inner [0, 0, 0, 0, 0, 0, 0, 0, 0] 0 1 3 5 zeroBBox,
      inner [0, 0, 0, 0, 0, 0, 0, 0, 0] 0 1 5 6 zeroBBox,
      leaf_at 0 0 0,
      leaf_at 1 1 1] 12, -1)"
  by (simp add: eval_build)

lemma step6_4:
  "buildNodeDownwards sortRange grow (tree_of 2 True pts6
     [inner [1, 2, 0, 0, 0, 0, 0, 0, 0] 2 3 0 6 zeroBBox,
      inner [3, 4, 0, 0, 0, 0, 0, 0, 0] 2 2 0 3 zeroBBox,
      inner [5, 6, 0, 0, 0, 0, 0, 0, 0] 2 2 3 6 zeroBBox,
      inner [7, 8, 0, 0, 0, 0, 0, 0, 0] 2 1 0 2 zeroBBox,
      inner [0, 0, 0, 0, 0, 0, 0, 0, 0] 0 1 2 3 zeroBBox,
      inner [0, 0, 0, 0, 0, 0, 0, 0, 0] 0 1 3 5 zeroBBox,
      inner [0, 0, 0, 0, 0, 0, 0, 0, 0] 0 1 5 6 zeroBBox,
      leaf_at 0 0 0,
      leaf_at 1 1 1] 12) 4 s
   = Ok (tree_of 2 True pts6
     [inner [1, 2, 0, 0, 0, 0, 0, 0, 0] 2 3 0 6 zeroBBox,
      inner [3, 4, 0, 0, 0, 0, 0, 0, 0] 2 2 0 3 zeroBBox,
      inner [5, 6, 0, 0, 0, 0, 0, 0, 0] 2 2 3 6 zeroBBox,
      inner [7, 8, 0, 0, 0, 0, 0, 0, 0] 2 1 0 2 zeroBBox,
      inner [9, 0, 0, 0, 0, 0, 0, 0, 0] 1 1 2 3 zeroBBox,
      inner [0, 0, 0, 0, 0, 0, 0, 0, 0] 0 1 3 5 zeroBBox,
      inner [0, 0, 0, 0, 0, 0, 0, 0, 0] 0 1 5 6 zeroBBox,
      leaf_at 0 0 0,
      leaf_at 1 1 1,
      leaf_at 2 2 2] 12, -1)"
  by (simp add: eval_build)

lemma step6_5:
  "buildNodeDownwards sortRange grow (tree_of 2 True pts6
     [inner [1, 2, 0, 0, 0, 0, 0, 0, 0] 2 3 0 6 zeroBBox,
      inner [3, 4, 0, 0, 0, 0, 0, 0, 0] 2 2 0 3 zeroBBox,
      inner [5, 6, 0, 0, 0, 0, 0, 0, 0] 2 2 3 6 zeroBBox,
      inner [7, 8, 0, 0, 0, 0, 0, 0, 0] 2 1 0 2 zeroBBox,
      inner [9, 0, 0, 0, 0, 0, 0, 0, 0] 1 1 2 3 zeroBBox,
      inner [0, 0, 0, 0, 0, 0, 0, 0, 0] 0 1 3 5 zeroBBox,
      inner [0, 0, 0, 0, 0, 0, 0, 0, 0] 0 1 5 6 zeroBBox,
      leaf_at 0 0 0,
      leaf_at 1 1 1,
      leaf_at 2 2 2] 12) 5 s
   = Ok (tree_of 2 True pts6
     [inner [1, 2, 0, 0, 0, 0, 0, 0, 0] 2 3 0 6 zeroBBox,
      inner [3, 4, 0, 0, 0, 0, 0, 0, 0] 2 2 0 3 zeroBBox,
      inner [5, 6, 0, 0, 0, 0, 0, 0, 0] 2 2 3 6 zeroBBox,
      inner [7, 8, 0, 0, 0, 0, 0, 0, 0] 2 1 0 2 zeroBBox,
      inner [9, 0, 0, 0, 0, 0, 0, 0, 0] 1 1 2 3 zeroBBox,
      inner [10, 11, 0, 0, 0, 0, 0, 0, 0] 2 1 3 5 zeroBBox,
      inner [0, 0, 0, 0, 0, 0, 0, 0, 0] 0 1 5 6 zeroBBox,
      leaf_at 0 0 0,
      leaf_at 1 1 1,
      leaf_at 2 2 2,
      leaf_at 3 3 3,
      leaf_at 4 4 4] 12, -1)"
  by (simp add: eval_build)

lemma step6_6:
  "buildNodeDownwards sortRange grow (tree_of 2 True pts6
     [inner [1, 2, 0, 0, 0, 0, 0, 0, 0] 2 3 0 6 zeroBBox,
      inner [3, 4, 0, 0, 0, 0, 0, 0, 0] 2 2 0 3 zeroBBox,
      inner [5, 6, 0, 0, 0, 0, 0, 0, 0] 2 2 3 6 zeroBBox,
      inner [7, 8, 0, 0, 0, 0, 0, 0, 0] 2 1 0 2 zeroBBox,
      inner [9, 0, 0, 0, 0, 0, 0, 0, 0] 1 1 2 3 zeroBBox,
      inner [10, 11, 0, 0, 0, 0, 0, 0, 0] 2 1 3 5 zeroBBox,
      inner [0, 0, 0, 0, 0, 0, 0, 0, 0] 0 1 5 6 zeroBBox,
      leaf_at 0 0 0,
      leaf_at 1 1 1,
      leaf_at 2 2 2,
      leaf_at 3 3 3,
      leaf_at 4 4 4] 12) 6 s
   = Ok (tree_of 2 True pts6
     [inner [1, 2, 0, 0, 0, 0, 0, 0, 0] 2 3 0 6 zeroBBox,
      inner [3, 4, 0, 0, 0, 0, 0, 0, 0] 2 2 0 3 zeroBBox,
      inner [5, 6, 0, 0, 0, 0, 0, 0, 0] 2 2 3 6 zeroBBox,
      inner [7, 8, 0, 0, 0, 0, 0, 0, 0] 2 1 0 2 zeroBBox,
      inner [9, 0, 0, 0, 0, 0, 0, 0, 0] 1 1 2 3 zeroBBox,
      inner [10, 11, 0, 0, 0, 0, 0, 0, 0] 2 1 3 5 zeroBBox,
      inner [0, 0, 0, 0, 0, 0, 0, 0, 0] 1 1 5 6 zeroBBox,
      leaf_at 0 0 0,
      leaf_at 1 1 1,
      leaf_at 2 2 2,
      leaf_at 3 3 3,
      leaf_at 4 4 4,
      leaf_at 5 5 5] (grow 12), -1)"
  by (simp add: eval_build)

lemma build_loop_pts1:
  "build_loop (Suc f) srt grow (tree_of 9 True pts1
     [inner [0, 0, 0, 0, 0, 0, 0, 0, 0] 0 h 0 1 zeroBBox] 2) 0 1 s
   = Ok (tree_of 9 True pts1
     [inner [1, 0, 0, 0, 0, 0, 0, 0, 0] 1 1 0 1 zeroBBox,
      leaf_at 0 0 0] 2)"
  by (simp add: build_loop.simps[of "Suc _"] build_loop.simps[of _ _ _ _ _ 0] step1_0)

lemma build_loop_pts2:
  "build_loop (Suc f) srt grow (tree_of 9 True pts2
     [inner [0, 0, 0, 0, 0, 0, 0, 0, 0] 0 h 0 2 zeroBBox] 4) 0 1 s
   = Ok (tree_of 9 True pts2
     [inner [1, 2, 0, 0, 0, 0, 0, 0, 0] 2 1 0 2 zeroBBox,
      leaf_at 0 0 0,
      leaf_at 1 1 1] 4)"
  by (simp add: build_loop.simps[of "Suc _"] build_loop.simps[of _ _ _ _ _ 0] step2_0)


lemma build_loop_pts6:
  "build_loop (Suc (Suc (Suc (Suc (Suc (Suc (Suc f))))))) sortRange grow (tree_of 2 True pts6
     [inner [0, 0, 0, 0, 0, 0, 0, 0, 0] 0 3 0 6 zeroBBox] 12) 0 1 s
   = Ok (arena6 grow)"
  by (simp add: build_loop.simps[of "Suc _"] build_loop.simps[of _ _ _ _ _ 0]
      step6_0 step6_1 step6_2 step6_3 step6_4 step6_5 step6_6 arena6_def)

lemma build_start:
  "build fuel srt grow Log (tree_of M True [] [] 0) pts s =
     obind (build_loop fuel srt grow
              (tree_of M True pts
                 [inner [0, 0, 0, 0, 0, 0, 0, 0, 0] 0
                    \<lceil>fdiv (Log (float64 (Len pts))) (Log (float64 M))\<rceil> 0 (Len pts) zeroBBox]
                 (nat (2 * Len pts))) 0 1 s)
       (\<lambda>r4. obind (computeBBoxDownwards fuel r4 0) (\<lambda>(r5, bbox). Ok r5))"
  if "0 < Len pts"
  using that
  by (simp add: build_def append_slice_def computeSize_def tree_of_sel inner_sel Let_def)

lemma upt_facts:
  "[Suc 0..<2] = [Suc 0]" "[0..<2] = [0, Suc 0]"
  by (simp_all add: upt_rec)

lemmas eval_bbox =
  upt_facts node_at_def inner_sel leaf_sel tree_of_sel set_bbox_def extend_def MAX_POSSIBLE_ENTRIES_def
  zeroBBox_def

lemma load_pts1: "load (Suc (Suc f)) srt grow Log (tree_of 9 False [] [] 0) pts1 s = Ok tree1"
  by (simp add: load_def Len_pts tree_of_sel build_start build_loop_pts1)
     (simp add: eval_bbox tree1_def)

lemma load_pts2: "load (Suc (Suc f)) srt grow Log (tree_of 9 False [] [] 0) pts2 s = Ok tree2"
  by (simp add: load_def Len_pts tree_of_sel build_start build_loop_pts2)
     (simp add: eval_bbox tree2_def)



section \<open>The claims\<close>

subsection \<open>Searching\<close>

lemmas eval_search =
  findNearestPointWithin_def node_at_def tree_of_sel inner_sel computeDistances_def sortFloats_def
  Let_def search_loop.simps float_facts

text \<open>
  C1. The claim: for every non-empty point sequence and every query point,
  \<^verbatim>\<open>FindNearestPoint\<close> returns \<open>found = true\<close> with a nearest input point. The code
  does not: loaded with the single point \<open>(0, 0)\<close> (default fan-out cap 9), the query
  \<open>(4, 4)\<close> is answered with \<open>found = false\<close>. The root's box is the point itself, so its
  lower and upper bound are the same number, and the test \<^verbatim>\<open>mind < distanceUpperBound\<close>
  that admits the root is strict (the test that admits a child is \<^verbatim>\<open><=\<close>).
\<close>

theorem FindNearestPoint_single_point_not_found:
  "Load (Suc (Suc f)) srt grow Log (tree_of 9 False [] [] 0) pts1 = Ok tree1
   \<and> FindNearestPoint fuel tree1 4 4 = Ok (0, 0, Fin 0, False)"
  by (simp add: Load_def load_pts1) (simp add: FindNearestPoint_def tree1_def eval_search)

text \<open>
  C2. The claim: for a radius \<open>r \<ge> 0\<close>, \<^verbatim>\<open>FindNearestPointWithin\<close> reports not-found if
  and only if the nearest input point is farther than \<open>r\<close>; in particular with \<open>r = 0\<close> a
  point that coincides with the query is found. The code does not: loaded with
  \<open>(0, 0)\<close> and \<open>(1, 1)\<close>, the query \<open>(0, 0)\<close> with radius \<open>0\<close> is answered with
  \<open>found = false\<close>, by the same strict test on the root as in C1.
\<close>

theorem FindNearestPointWithin_radius_zero_not_found:
  "Load (Suc (Suc f)) srt grow Log (tree_of 9 False [] [] 0) pts2 = Ok tree2
   \<and> FindNearestPointWithin fuel tree2 0 0 0 = Ok (0, 0, Fin 0, False)"
  by (simp add: Load_def load_pts2) (simp add: FindNearestPointWithin_def tree2_def eval_search)

text \<open>
  C3. The claim: loading an empty point sequence is not an error, and every later query on
  the empty tree returns \<open>found = false\<close>. The first half holds. The second does not: the
  search starts with \<^verbatim>\<open>rootNode := &r.nodes[0]\<close>, which panics on the empty arena.
\<close>

theorem query_on_empty_tree_panics:
  "New = Ok (tree_of 9 False [] [] 0)
   \<and> Load fuel srt grow Log (tree_of 9 False [] [] 0) [] = Ok (tree_of 9 False [] [] 0)
   \<and> FindNearestPoint fuel' (tree_of 9 False [] [] 0) x y = Panic
   \<and> FindNearestPointWithin fuel' (tree_of 9 False [] [] 0) x y d = Panic"
  by (simp add: New_def NewWithOptions_def MAX_POSSIBLE_ENTRIES_def tree_of_def Load_def load_def
      Len_def FindNearestPoint_def FindNearestPointWithin_def findNearestPointWithin_def
      node_at_def)

subsection \<open>Misuse\<close>

text \<open>
  C4, as amended. Constructing a tree with a fan-out cap greater than 9 ends the process:
  \<^verbatim>\<open>NewWithOptions\<close> calls \<^verbatim>\<open>log.Fatal\<close> before it constructs anything, and no value,
  error or tree, reaches the caller.
\<close>

theorem NewWithOptions_too_large_exits:
  assumes "MAX_POSSIBLE_ENTRIES < MAX_ENTRIES opts"
  shows "NewWithOptions opts = Exit"
  using assms by (simp add: NewWithOptions_def)

theorem NewWithOptions_too_large_exits_witness:
  "MAX_POSSIBLE_ENTRIES < MAX_ENTRIES \<lparr>MAX_ENTRIES = 12\<rparr>
   \<and> NewWithOptions \<lparr>MAX_ENTRIES = 12\<rparr> = Exit"
proof -
  have h: "MAX_POSSIBLE_ENTRIES < MAX_ENTRIES \<lparr>MAX_ENTRIES = 12\<rparr>"
    by (simp add: MAX_POSSIBLE_ENTRIES_def)
  show ?thesis using h NewWithOptions_too_large_exits [OF h] by simp
qed

text \<open>
  C4 as stated fails: with the cap 10 the outcome is the end of the process, not an error
  that the caller receives.
\<close>

theorem NewWithOptions_ten_counterexample:
  "NewWithOptions \<lparr>MAX_ENTRIES = 10\<rparr> = Exit"
  by (simp add: NewWithOptions_def MAX_POSSIBLE_ENTRIES_def)

text \<open>
  C5, as amended. On a tree whose build has completed, loading a non-empty point sequence
  again ends the process: \<^verbatim>\<open>load\<close> calls \<^verbatim>\<open>log.Fatal\<close> before it changes anything, and
  no value reaches the caller.
\<close>

theorem load_twice_exits:
  assumes "built r" and "Len pts \<noteq> 0"
  shows "load fuel srt grow Log r pts isSorted = Exit"
  using assms by (simp add: load_def)

theorem load_twice_exits_witness:
  "built tree1 \<and> Len pts2 \<noteq> 0 \<and> load 2 sortRange double_cap ln tree1 pts2 False = Exit"
proof -
  have b: "built tree1" by (simp add: tree1_def tree_of_sel)
  have l: "Len pts2 \<noteq> 0" by (simp add: Len_pts)
  show ?thesis using b l load_twice_exits [OF b l] by simp
qed

text \<open>
  C5 as stated fails twice on the tree built from one point: a second load of the empty
  sequence is not rejected at all, and a second load of a non-empty sequence ends the
  process instead of reporting an error to the caller.
\<close>

theorem load_twice_counterexample:
  "Load 2 sortRange double_cap ln (tree_of 9 False [] [] 0) pts1 = Ok tree1
   \<and> Load 2 sortRange double_cap ln tree1 [] = Ok tree1
   \<and> Load 2 sortRange double_cap ln tree1 pts2 = Exit"
  using load_pts1 [of 0 sortRange double_cap ln False]
  by (simp add: Load_def numeral_2_eq_2) (simp add: load_def Len_pts tree1_def tree_of_sel)


subsection \<open>Distance bounds\<close>

text \<open>
  Close to 1 the neighbouring \<^verbatim>\<open>float64\<close> values are \<open>2\<^sup>-\<^sup>5\<^sup>3\<close> apart below and \<open>2\<^sup>-\<^sup>5\<^sup>2\<close>
  apart above, so \<open>1 - 2\<^sup>-\<^sup>7\<^sup>0\<close> rounds to 1.
\<close>

lemma fl_near_one: "fl (1 - 1 / 2 ^ 70) = 1"
  using fl_eqI[of "- 1" "1 - 1 / 2 ^ 70" "2 ^ 53"]
  by (simp add: power_int_minus_divide)

lemma fl_tiny: "fl (1 / 2 ^ 70) = 1 / 2 ^ 70" "fl (1 / 2 ^ 140) = 1 / 2 ^ 140"
proof -
  have "fl (real_of_int 1 * 2 powi (- 70)) = real_of_int 1 * 2 powi (- 70)"
    by (rule fl_exact) simp_all
  moreover have "(2::real) powi (- 70) = 1 / 2 ^ 70" by (simp add: power_int_minus_divide)
  ultimately show "fl (1 / 2 ^ 70) = 1 / 2 ^ 70" by (simp only: of_int_1 mult_1)
  have "fl (real_of_int 1 * 2 powi (- 140)) = real_of_int 1 * 2 powi (- 140)"
    by (rule fl_exact) simp_all
  moreover have "(2::real) powi (- 140) = 1 / 2 ^ 140" by (simp add: power_int_minus_divide)
  ultimately show "fl (1 / 2 ^ 140) = 1 / 2 ^ 140" by (simp only: of_int_1 mult_1)
qed

lemma fsub_tiny_one: "fsub (1 / 2 ^ 70) 1 = - 1"
proof -
  have "(1 / 2 ^ 70 - 1 :: real) = - (1 - 1 / 2 ^ 70)" by simp
  then show ?thesis unfolding fsub_def by (simp only: fl_minus fl_near_one)
qed

lemma computeDistances_unit_box:
  assumes "fsub x 0 = x" "fmul x x = xx" "fsub x 1 = - 1" "xx \<le> 1"
  shows "computeDistances
           (inner cs cl h s e \<lparr>MinX = 0, MinY = 0, MaxX = 1, MaxY = 1\<rparr>) x (1 / 2) = (xx, 5 / 4)"
proof -
  have m: "fmul (- 1) (- 1) = 1" "fmul (1 / 2) (1 / 2) = 1 / 4" "fmul (- (1 / 2)) (- (1 / 2)) = 1 / 4"
    "fmul 1 1 = 1" "fsub (1 / 2) 0 = 1 / 2" "fsub (1 / 2) 1 = - (1 / 2)" "fsub 1 0 = 1"
    "fadd 1 (1 / 4) = 5 / 4"
    by (simp_all add: fmul_def fsub_def fadd_def fl_1 fl_dyadic fl_minus)
  show ?thesis
    using assms(4)
    by (simp add: computeDistances_def inner_sel sortFloats_def Let_def assms(1-3) m)
qed

text \<open>
  C8. The claim: for a node whose box has \<open>MinX \<le> MaxX\<close> and \<open>MinY \<le> MaxY\<close>, the lower
  bound \<open>mind\<close> of \<^verbatim>\<open>computeDistances\<close> is at most the squared distance from the query to
  every point of the box, and it is 0 when the query lies in the box. The code does not
  do that: it takes the query to be inside in \<open>x\<close> when \<^verbatim>\<open>maxx < sideX\<close>, and these two
  squares are rounded. On the root of the tree built from \<open>(0, 0)\<close> and \<open>(1, 1)\<close>, whose box
  is the unit square, the query \<open>(2\<^sup>-\<^sup>7\<^sup>0, 1/2)\<close> lies in the box; \<open>x - MaxX\<close> rounds to \<open>-1\<close>,
  so \<open>maxx = sideX = 1\<close>, and \<open>mind\<close> is \<open>2\<^sup>-\<^sup>1\<^sup>4\<^sup>0\<close>, not 0: greater than the squared
  distance 0 from the query to itself.
\<close>

theorem computeDistances_inside_box_not_zero:
  "Load (Suc (Suc f)) srt grow Log (tree_of 9 False [] [] 0) pts2 = Ok tree2
   \<and> BBox (nodes tree2 ! 0) = \<lparr>MinX = 0, MinY = 0, MaxX = 1, MaxY = 1\<rparr>
   \<and> fl (1 / 2 ^ 70) = 1 / 2 ^ 70 \<and> fl (1 / 2) = 1 / 2
   \<and> inBox (BBox (nodes tree2 ! 0)) (1 / 2 ^ 70) (1 / 2)
   \<and> computeDistances (nodes tree2 ! 0) (1 / 2 ^ 70) (1 / 2) = (1 / 2 ^ 140, 5 / 4)"
proof -
  have a: "fsub (1 / 2 ^ 70) 0 = 1 / 2 ^ 70"
    unfolding fsub_def diff_zero by (rule fl_tiny)
  have "(1 / 2 ^ 70 * (1 / 2 ^ 70) :: real) = 1 / 2 ^ 140" by simp
  then have b: "fmul (1 / 2 ^ 70) (1 / 2 ^ 70) = 1 / 2 ^ 140"
    unfolding fmul_def by (simp only: fl_tiny)
  have c: "(1 / 2 ^ 140 :: real) \<le> 1" by simp
  have r: "nodes tree2 ! 0
           = inner [1, 2, 0, 0, 0, 0, 0, 0, 0] 2 1 0 2 \<lparr>MinX = 0, MinY = 0, MaxX = 1, MaxY = 1\<rparr>"
    by (simp add: tree2_def tree_of_sel)
  have "computeDistances (nodes tree2 ! 0) (1 / 2 ^ 70) (1 / 2) = (1 / 2 ^ 140, 5 / 4)"
    unfolding r by (rule computeDistances_unit_box[OF a b fsub_tiny_one c])
  moreover have "inBox (BBox (nodes tree2 ! 0)) (1 / 2 ^ 70) (1 / 2)"
    unfolding r by (simp add: inner_sel inBox_def)
  moreover have "BBox (nodes tree2 ! 0) = \<lparr>MinX = 0, MinY = 0, MaxX = 1, MaxY = 1\<rparr>"
    unfolding r by (simp add: inner_sel)
  moreover have "Load (Suc (Suc f)) srt grow Log (tree_of 9 False [] [] 0) pts2 = Ok tree2"
    by (simp add: Load_def load_pts2)
  ultimately show ?thesis using fl_tiny(1) fl_dyadic(1) by blast
qed


subsection \<open>The bounding-box pass keeps everything but the boxes\<close>

lemma skeleton_set_bbox: "skeleton (set_bbox r k b) = skeleton r"
proof (cases "nat k < length (nodes r)")
  case True
  then show ?thesis
    by (simp add: skeleton_def set_bbox_def map_update strip_def list_update_same_conv)
next
  case False
  then show ?thesis by (simp add: skeleton_def set_bbox_def list_update_beyond)
qed

lemma skeleton_cbd:
  "computeBBoxDownwards f r k = Ok (r', b) \<Longrightarrow> skeleton r' = skeleton r"
  "extend_children f r n is b0 = Ok (r', b) \<Longrightarrow> skeleton r' = skeleton r"
proof (induction f r k and f r n "is" b0 arbitrary: r' b and r' b
       rule: computeBBoxDownwards_extend_children.induct)
  case (1 r nodeIndex)
  then show ?case by simp
next
  case (2 f r nodeIndex)
  from "2.prems" obtain n where n: "node_at r nodeIndex = Ok n"
    by (auto simp: obind_eq_Ok)
  show ?case
  proof (cases "isLeaf n")
    case True
    with "2.prems" n show ?thesis by (auto simp: skeleton_set_bbox)
  next
    case False
    with "2.prems" n obtain r1 b0 r2 where
      a: "computeBBoxDownwards f r (children n ! 0) = Ok (r1, b0)" and
      b: "extend_children f r1 n (map int [1..<nat (childrenLength n)]) b0 = Ok (r2, b)" and
      c: "r' = set_bbox r2 nodeIndex b"
      by (auto simp: obind_eq_Ok)
    from "2.IH"(1)[OF n False a] "2.IH"(2)[OF n False a refl b] c
    show ?thesis by (simp add: skeleton_set_bbox)
  qed
next
  case (3 f r n bbox)
  then show ?case by simp
next
  case (4 f r n i "is" bbox)
  from "4.prems" have lt: "i < MAX_POSSIBLE_ENTRIES" by (auto split: if_splits)
  with "4.prems" obtain r1 b1 where
    a: "computeBBoxDownwards f r (children n ! nat i) = Ok (r1, b1)" and
    b: "extend_children f r1 n is (extend bbox b1) = Ok (r', b)"
    by (auto simp: obind_eq_Ok)
  from "4.IH"(1)[OF lt a] "4.IH"(2)[OF lt a refl b] show ?case by simp
qed


subsection \<open>The builder keeps the height of the root\<close>




lemma root_inv_points: "root_inv k H opts (r, n, live) \<Longrightarrow> root_inv k H opts (r\<lparr>points := p\<rparr>, n, live)"
  by simp







lemma build_loop_mono:
  "build_loop f srt grow r i rem s = Ok r' \<Longrightarrow> build_loop (f + k) srt grow r i rem s = Ok r'"
proof (induction f arbitrary: r i rem s)
  case 0
  then show ?case by (auto simp: build_loop.simps[of 0] build_loop.simps[of k] split: if_splits)
next
  case (Suc f)
  show ?case
  proof (cases "rem > 0")
    case True
    with Suc.prems obtain r1 d where
      b: "buildNodeDownwards srt grow r i s = Ok (r1, d)" and
      l: "build_loop f srt grow r1 (i + 1) (rem + d) False = Ok r'"
      by (auto simp: build_loop.simps[of "Suc f"] obind_eq_Ok)
    from Suc.IH[OF l] b True show ?thesis
      by (simp add: build_loop.simps[of "Suc (f + k)"])
  next
    case False
    with Suc.prems show ?thesis
      by (simp add: build_loop.simps[of "Suc f"] build_loop.simps[of "Suc (f + k)"])
  qed
qed



subsection \<open>The arena built from six points with fan-out cap 2\<close>

lemma node_at_skeleton:
  assumes "skeleton r = skeleton r0" and "node_at r0 k = Ok n0"
  shows "\<exists>n. node_at r k = Ok n \<and> strip n = strip n0"
proof -
  from assms(1) have len: "length (nodes r) = length (nodes r0)"
    by (metis length_map skeleton_def)
  from assms(2) have k: "0 \<le> k" "nat k < length (nodes r0)" and n0: "n0 = nodes r0 ! nat k"
    by (auto simp: node_at_def split: if_splits)
  have "strip (nodes r ! nat k) = strip (nodes r0 ! nat k)"
    using assms(1) k len by (metis nth_map skeleton_def)
  then show ?thesis using k len n0 by (auto simp: node_at_def)
qed

lemma strip_fields:
  assumes "strip n = strip n'"
  shows "isLeaf n = isLeaf n'" "children n = children n'" "childrenLength n = childrenLength n'"
    "height n = height n'" "start n = start n'" "end' n = end' n'"
proof -
  have "isLeaf (strip n) = isLeaf (strip n')" "children (strip n) = children (strip n')"
    "childrenLength (strip n) = childrenLength (strip n')" "height (strip n) = height (strip n')"
    "start (strip n) = start (strip n')" "end' (strip n) = end' (strip n')"
    using assms by simp_all
  then show "isLeaf n = isLeaf n'" "children n = children n'"
    "childrenLength n = childrenLength n'" "height n = height n'" "start n = start n'"
    "end' n = end' n'"
    by (simp_all add: strip_def)
qed

lemma descend_first:
  assumes "computeBBoxDownwards fuel r k = Ok res" and "node_at r k = Ok n" and "\<not> isLeaf n"
  shows "\<exists>f r1 b. fuel = Suc f \<and> computeBBoxDownwards f r (children n ! 0) = Ok (r1, b)"
proof (cases fuel)
  case 0
  with assms show ?thesis by simp
next
  case (Suc f)
  with assms show ?thesis by (auto simp: obind_eq_Ok)
qed

lemma descend_second:
  assumes "computeBBoxDownwards fuel r k = Ok res" and "node_at r k = Ok n" and "\<not> isLeaf n"
    and "2 \<le> childrenLength n"
  shows "\<exists>f r1 b0 r2 b. fuel = Suc f \<and> computeBBoxDownwards f r (children n ! 0) = Ok (r1, b0)
           \<and> computeBBoxDownwards f r1 (children n ! 1) = Ok (r2, b)"
proof (cases fuel)
  case 0
  with assms show ?thesis by simp
next
  case (Suc f)
  from assms(4) have "1 < nat (childrenLength n)" by simp
  then have u: "map int [1..<nat (childrenLength n)] = 1 # map int [2..<nat (childrenLength n)]"
    by (simp add: upt_conv_Cons numeral_2_eq_2)
  from assms(1-3) Suc obtain r1 b0 r2 b where
    a: "computeBBoxDownwards f r (children n ! 0) = Ok (r1, b0)" and
    e: "extend_children f r1 n (map int [1..<nat (childrenLength n)]) b0 = Ok (r2, b)"
    by (auto simp: obind_eq_Ok)
  from e obtain r3 b1 where "computeBBoxDownwards f r1 (children n ! 1) = Ok (r3, b1)"
    unfolding u by (auto simp: obind_eq_Ok MAX_POSSIBLE_ENTRIES_def split: if_splits)
  with a Suc show ?thesis by blast
qed

lemma arena6_nodes:
  "node_at (arena6 grow) 0 = Ok (inner [1, 2, 0, 0, 0, 0, 0, 0, 0] 2 3 0 6 zeroBBox)"
  "node_at (arena6 grow) 2 = Ok (inner [5, 6, 0, 0, 0, 0, 0, 0, 0] 2 2 3 6 zeroBBox)"
  "node_at (arena6 grow) 6 = Ok (inner [0, 0, 0, 0, 0, 0, 0, 0, 0] 1 1 5 6 zeroBBox)"
  by (simp_all add: arena6_def tree_of_sel node_at_def)

text \<open>
  In that arena the root (node 0) has the children 1 and 2, node 2 has the children 5 and
  6, and the first child slot of node 6 holds 0: the bounding-box pass that starts at the
  root comes back to the root, whatever the fuel.
\<close>

lemma computeBBoxDownwards_arena6:
  "skeleton r = skeleton (arena6 grow) \<Longrightarrow> computeBBoxDownwards fuel r 0 \<noteq> Ok res"
proof (induction fuel arbitrary: r res rule: less_induct)
  case (less fuel)
  show ?case
  proof
    assume ok: "computeBBoxDownwards fuel r 0 = Ok res"
    from node_at_skeleton[OF less.prems arena6_nodes(1)] obtain n0 where
      n0: "node_at r 0 = Ok n0" and
      s0: "strip n0 = strip (inner [1, 2, 0, 0, 0, 0, 0, 0, 0] 2 3 0 6 zeroBBox)"
      by blast
    from strip_fields[OF s0]
    have f0: "\<not> isLeaf n0" "children n0 ! 1 = 2" "2 \<le> childrenLength n0"
      by (simp_all add: inner_sel)
    from descend_second[OF ok n0 f0(1,3)] f0(2) obtain f1 r1 b0 r2 b where
      fuel: "fuel = Suc f1" and
      a1: "computeBBoxDownwards f1 r (children n0 ! 0) = Ok (r1, b0)" and
      a2: "computeBBoxDownwards f1 r1 2 = Ok (r2, b)"
      by auto
    have sk1: "skeleton r1 = skeleton (arena6 grow)"
      using skeleton_cbd(1)[OF a1] less.prems by simp
    from node_at_skeleton[OF sk1 arena6_nodes(2)] obtain n2 where
      n2: "node_at r1 2 = Ok n2" and
      s2: "strip n2 = strip (inner [5, 6, 0, 0, 0, 0, 0, 0, 0] 2 2 3 6 zeroBBox)"
      by blast
    from strip_fields[OF s2]
    have f2: "\<not> isLeaf n2" "children n2 ! 1 = 6" "2 \<le> childrenLength n2"
      by (simp_all add: inner_sel)
    from descend_second[OF a2 n2 f2(1,3)] f2(2) obtain f2 r3 b3 r4 b4 where
      f1: "f1 = Suc f2" and
      a3: "computeBBoxDownwards f2 r1 (children n2 ! 0) = Ok (r3, b3)" and
      a4: "computeBBoxDownwards f2 r3 6 = Ok (r4, b4)"
      by auto
    have sk3: "skeleton r3 = skeleton (arena6 grow)"
      using skeleton_cbd(1)[OF a3] sk1 by simp
    from node_at_skeleton[OF sk3 arena6_nodes(3)] obtain n6 where
      n6: "node_at r3 6 = Ok n6" and
      s6: "strip n6 = strip (inner [0, 0, 0, 0, 0, 0, 0, 0, 0] 1 1 5 6 zeroBBox)"
      by blast
    from strip_fields[OF s6]
    have f6: "\<not> isLeaf n6" "children n6 ! 0 = 0"
      by (simp_all add: inner_sel)
    from descend_first[OF a4 n6 f6(1)] f6(2) obtain f3 r5 b5 where
      f2: "f2 = Suc f3" and
      a5: "computeBBoxDownwards f3 r3 0 = Ok (r5, b5)"
      by auto
    have "f3 < fuel" using fuel f1 f2 by simp
    from less.IH[OF this sk3] a5 show False by blast
  qed
qed

lemma build_pts6:
  "build fuel sortRange grow ln (tree_of 2 True [] [] 0) pts6 s =
     obind (build_loop fuel sortRange grow
              (tree_of 2 True pts6 [inner [0, 0, 0, 0, 0, 0, 0, 0, 0] 0 3 0 6 zeroBBox] 12) 0 1 s)
       (\<lambda>r4. obind (computeBBoxDownwards fuel r4 0) (\<lambda>(r5, bbox). Ok r5))"
  by (simp add: build_start Len_pts float64_exact ceiling_fdiv_ln)











subsection \<open>The shape of the arena depends neither on the points nor on the sorter\<close>

text \<open>
  The builder reads the points only through their number, and the sorters only permute
  them. So two runs of the builder from trees of the same shape (equal but for the points
  and the bounding boxes) go through the same steps and end in trees of the same shape.
\<close>

lemma strip_eqD: "strip m = strip m' \<Longrightarrow> m' = m\<lparr>BBox := BBox m'\<rparr>"
  by (cases m, cases m') (simp add: strip_def)

lemma strip_update [simp]: "strip (m\<lparr>BBox := b\<rparr>) = strip m"
  by (simp add: strip_def)

lemma same_shape_length: "same_shape r r' \<Longrightarrow> length (nodes r) = length (nodes r')"
  unfolding same_shape_def skeleton_def by (drule conjunct1) (rule map_eq_imp_length_eq)


lemma same_shape_points [simp]:
  "same_shape (r\<lparr>points := p\<rparr>) r' = same_shape r r'"
  "same_shape r (r'\<lparr>points := p\<rparr>) = same_shape r r'"
  by (simp_all add: same_shape_def skeleton_def)

lemma skeleton_append: "skeleton (r\<lparr>nodes := nodes r @ [c]\<rparr>) = skeleton r @ [strip c]"
  by (simp add: skeleton_def)

lemma skeleton_append_cap:
  "skeleton (r\<lparr>nodes := nodes r @ [c], nodes_cap := k\<rparr>) = skeleton r @ [strip c]"
  by (simp add: skeleton_def)

lemma skeleton_update: "skeleton (r\<lparr>nodes := (nodes r)[i := m]\<rparr>) = (skeleton r)[i := strip m]"
  by (simp add: skeleton_def map_update)

lemma same_frame_append:
  assumes "same_frame fr fr'" and "strip c = strip c'"
  shows "same_frame (append_node grow fr c) (append_node grow fr' c')"
proof -
  obtain r n l r' n' l' where fr: "fr = (r, n, l)" "fr' = (r', n', l')"
    by (cases fr, cases fr') auto
  with assms(1) have s: "same_shape r r'" and n: "strip n = strip n'" and l: "l = l'" by auto
  from s have len: "length (nodes r) = length (nodes r')" by (rule same_shape_length)
  from s have sk: "skeleton r = skeleton r'" and cap: "nodes_cap r = nodes_cap r'"
    and opt: "options r = options r'"
    by (simp_all add: same_shape_def)
  show ?thesis
  proof (cases "length (nodes r) < nodes_cap r")
    case True
    with len cap have "length (nodes r') < nodes_cap r'" by simp
    with True show ?thesis
      unfolding fr using sk cap opt n l assms(2)
      by (simp add: same_shape_def skeleton_append)
  next
    case False
    with len cap have "\<not> length (nodes r') < nodes_cap r'" by simp
    with False show ?thesis
      unfolding fr using sk cap opt n l assms(2)
      by (simp add: same_shape_def skeleton_append_cap)
  qed
qed

lemma same_frame_write:
  assumes "same_frame fr fr'" and "\<And>m m'. strip m = strip m' \<Longrightarrow> strip (f m) = strip (f m')"
  shows "same_frame (write_n k f fr) (write_n k f fr')"
proof -
  obtain r n l r' n' l' where fr: "fr = (r, n, l)" "fr' = (r', n', l')"
    by (cases fr, cases fr') auto
  with assms(1) have s: "same_shape r r'" and n: "strip n = strip n'" and l: "l = l'" by auto
  from s have sk: "skeleton r = skeleton r'" and cap: "nodes_cap r = nodes_cap r'"
    and opt: "options r = options r'"
    by (simp_all add: same_shape_def)
  have fn: "strip (f n) = strip (f n')" by (rule assms(2)[OF n])
  show ?thesis
  proof (cases l)
    case True
    then show ?thesis
      unfolding fr using sk cap opt fn l by (simp add: same_shape_def skeleton_update)
  next
    case False
    then show ?thesis
      unfolding fr using sk cap opt fn l by (simp add: same_shape_def)
  qed
qed

lemma strip_writes:
  assumes "strip m = strip m'"
  shows "strip (m\<lparr>children := (children m)[i := v]\<rparr>)
           = strip (m'\<lparr>children := (children m')[i := v]\<rparr>)"
    and "strip (m\<lparr>childrenLength := childrenLength m + 1\<rparr>)
           = strip (m'\<lparr>childrenLength := childrenLength m' + 1\<rparr>)"
    and "strip (m\<lparr>childrenLength := end' m - start m\<rparr>)
           = strip (m'\<lparr>childrenLength := end' m' - start m'\<rparr>)"
    and "strip (m\<lparr>height := h\<rparr>) = strip (m'\<lparr>height := h\<rparr>)"
  using assms by (cases m, cases m', simp add: strip_def)+

lemma same_frame_set_child:
  assumes "set_child k i v fr = Ok fr1" and "set_child k i v fr' = Ok fr1'"
    and "same_frame fr fr'"
  shows "same_frame fr1 fr1'"
proof -
  from assms(1) have fr1: "fr1 = write_n k (\<lambda>m. m\<lparr>children := (children m)[nat i := v]\<rparr>) fr"
    by (auto simp: set_child_def split: if_splits)
  from assms(2) have fr1': "fr1' = write_n k (\<lambda>m. m\<lparr>children := (children m)[nat i := v]\<rparr>) fr'"
    by (auto simp: set_child_def split: if_splits)
  show ?thesis unfolding fr1 fr1'
    by (rule same_frame_write[OF assms(3)]) (rule strip_writes(1))
qed

lemma setLeafNode_loop_Ok:
  assumes "setLeafNode_loop grow k i ci (r, n, live) = Ok fr1" and "i < end' n - start n"
  shows "\<exists>x1 y1 fr2. GetPointAt (points r) (start n + i) = Ok (x1, y1) \<and>
           set_child k i ci (append_node grow (r, n, live)
             (zeroNode\<lparr>start := start n + i, end' := start n + i + 1, isLeaf := True,
                        BBox := \<lparr>MinX = x1, MinY = y1, MaxX = x1, MaxY = y1\<rparr>\<rparr>)) = Ok fr2
           \<and> setLeafNode_loop grow k (i + 1) (ci + 1) fr2 = Ok fr1"
  using assms
  by (subst (asm) setLeafNode_loop.simps)
     (auto simp add: obind_eq_Ok Let_def simp del: append_node.simps write_n.simps; blast)

lemma children_loop_Ok:
  assumes "children_loop grow k N2 right2 j ci (r, n, live) = Ok fr1" and "j < right2"
  shows "\<exists>fr3.
           set_child k (childrenLength n) ci
             (write_n k (\<lambda>m. m\<lparr>childrenLength := childrenLength m + 1\<rparr>)
                (append_node grow (r, n, live)
                   (zeroNode\<lparr>start := start n + j, end' := start n + minInt (j + N2) right2,
                              height := height n - 1\<rparr>))) = Ok fr3
           \<and> children_loop grow k N2 right2 (j + N2) (ci + 1) fr3 = Ok fr1"
proof -
  have e: "childrenLength (fst (snd (write_n k (\<lambda>m. m\<lparr>childrenLength := childrenLength m + 1\<rparr>)
                (append_node grow (r, n, live) c)))) - 1 = childrenLength n" for c
    by (cases "length (nodes r) < nodes_cap r") simp_all
  from assms show ?thesis
    by (subst (asm) children_loop.simps)
       (auto simp add: obind_eq_Ok Let_def e simp del: append_node.simps write_n.simps; blast)
qed

lemma slices_loop_Ok:
  assumes "slices_loop srt grow k N N1 N2 i (r, n, live) = Ok fr1" and "i < N"
  shows "0 < N1 \<and> (\<exists>fr2.
           children_loop grow k N2 (minInt (i + N1) N) i (int (length (nodes r)))
             (r\<lparr>points := srt Y (start n + i) (start n + minInt (i + N1) N) N2 (points r)\<rparr>,
              n, live) = Ok fr2
           \<and> slices_loop srt grow k N N1 N2 (i + N1) fr2 = Ok fr1)"
  using assms
  by (subst (asm) slices_loop.simps)
     (auto simp add: obind_eq_Ok Let_def simp del: append_node.simps write_n.simps
        split: if_splits; blast)

lemma same_setLeafNode_loop:
  "setLeafNode_loop grow k i ci fr = Ok fr1 \<Longrightarrow> setLeafNode_loop grow k i ci fr' = Ok fr1' \<Longrightarrow>
     same_frame fr fr' \<Longrightarrow> same_frame fr1 fr1'"
proof (induction grow k i ci fr arbitrary: fr' rule: setLeafNode_loop.induct)
  case (1 grow k i ci r n live)
  obtain r' n' live' where fr': "fr' = (r', n', live')" by (cases fr') auto
  from "1.prems"(3) fr' have n: "strip n = strip n'" by simp
  note f = strip_fields[OF n]
  show ?case
  proof (cases "i < end' n - start n")
    case True
    with f have True': "i < end' n' - start n'" by simp
    from setLeafNode_loop_Ok[OF "1.prems"(1) True] obtain x1 y1 fr2 where
      g: "GetPointAt (points r) (start n + i) = Ok (x1, y1)" and
      s: "set_child k i ci (append_node grow (r, n, live)
            (zeroNode\<lparr>start := start n + i, end' := start n + i + 1, isLeaf := True,
                       BBox := \<lparr>MinX = x1, MinY = y1, MaxX = x1, MaxY = y1\<rparr>\<rparr>)) = Ok fr2" and
      l: "setLeafNode_loop grow k (i + 1) (ci + 1) fr2 = Ok fr1"
      by blast
    from setLeafNode_loop_Ok[OF "1.prems"(2)[unfolded fr'] True'] obtain x1' y1' fr2' where
      s': "set_child k i ci (append_node grow (r', n', live')
            (zeroNode\<lparr>start := start n' + i, end' := start n' + i + 1, isLeaf := True,
                       BBox := \<lparr>MinX = x1', MinY = y1', MaxX = x1', MaxY = y1'\<rparr>\<rparr>)) = Ok fr2'" and
      l': "setLeafNode_loop grow k (i + 1) (ci + 1) fr2' = Ok fr1'"
      by blast
    have "same_frame fr2 fr2'"
    proof (rule same_frame_set_child[OF s s'], rule same_frame_append)
      show "same_frame (r, n, live) (r', n', live')" using "1.prems"(3) fr' by simp
      show "strip (zeroNode\<lparr>start := start n + i, end' := start n + i + 1, isLeaf := True,
                       BBox := \<lparr>MinX = x1, MinY = y1, MaxX = x1, MaxY = y1\<rparr>\<rparr>)
          = strip (zeroNode\<lparr>start := start n' + i, end' := start n' + i + 1, isLeaf := True,
                       BBox := \<lparr>MinX = x1', MinY = y1', MaxX = x1', MaxY = y1'\<rparr>\<rparr>)"
        using f by (simp add: strip_def)
    qed
    from "1.IH"[OF True g refl refl s l l' this] show ?thesis .
  next
    case False
    with f have "\<not> i < end' n' - start n'" by simp
    with False "1.prems" fr' show ?thesis by (simp add: setLeafNode_loop.simps)
  qed
qed

lemma same_children_loop:
  "children_loop grow k N2 right2 j ci fr = Ok fr1 \<Longrightarrow>
   children_loop grow k N2 right2 j ci fr' = Ok fr1' \<Longrightarrow>
     same_frame fr fr' \<Longrightarrow> same_frame fr1 fr1'"
proof (induction grow k N2 right2 j ci fr arbitrary: fr' rule: children_loop.induct)
  case (1 grow k N2 right2 j ci r n live)
  obtain r' n' live' where fr': "fr' = (r', n', live')" by (cases fr') auto
  from "1.prems"(3) fr' have n: "strip n = strip n'" by simp
  note f = strip_fields[OF n]
  show ?case
  proof (cases "j < right2")
    case True
    define child where "child = zeroNode\<lparr>start := start n + j,
       end' := start n + minInt (j + N2) right2, height := height n - 1\<rparr>"
    define fr2 where "fr2 = write_n k (\<lambda>m. m\<lparr>childrenLength := childrenLength m + 1\<rparr>)
       (append_node grow (r, n, live) child)"
    define fr2' where "fr2' = write_n k (\<lambda>m. m\<lparr>childrenLength := childrenLength m + 1\<rparr>)
       (append_node grow (r', n', live') child)"
    from children_loop_Ok[OF "1.prems"(1) True] obtain fr3 where
      s: "set_child k (childrenLength n) ci fr2 = Ok fr3" and
      l: "children_loop grow k N2 right2 (j + N2) (ci + 1) fr3 = Ok fr1"
      unfolding fr2_def child_def by blast
    from children_loop_Ok[OF "1.prems"(2)[unfolded fr'] True] obtain fr3' where
      s': "set_child k (childrenLength n) ci fr2' = Ok fr3'" and
      l': "children_loop grow k N2 right2 (j + N2) (ci + 1) fr3' = Ok fr1'"
      unfolding fr2'_def child_def f[symmetric] by blast
    have sf2: "same_frame fr2 fr2'"
      unfolding fr2_def fr2'_def
    proof (rule same_frame_write)
      show "same_frame (append_node grow (r, n, live) child) (append_node grow (r', n', live') child)"
        by (rule same_frame_append) (use "1.prems"(3) fr' in simp_all)
    next
      fix m m' :: Node
      assume "strip m = strip m'"
      then show "strip (m\<lparr>childrenLength := childrenLength m + 1\<rparr>)
          = strip (m'\<lparr>childrenLength := childrenLength m' + 1\<rparr>)"
        by (rule strip_writes(2))
    qed
    have sf3: "same_frame fr3 fr3'" by (rule same_frame_set_child[OF s s' sf2])
    have e: "childrenLength (fst (snd fr2)) - 1 = childrenLength n"
      by (cases "length (nodes r) < nodes_cap r") (simp_all add: fr2_def)
    have s0: "set_child k (childrenLength (fst (snd fr2)) - 1) ci fr2 = Ok fr3"
      using s e by simp
    from "1.IH"[OF True refl refl refl refl s0[unfolded fr2_def child_def] l l' sf3]
    show ?thesis .
  next
    case False
    with "1.prems" fr' show ?thesis by (simp add: children_loop.simps)
  qed
qed

lemma same_slices_loop:
  "slices_loop srt grow k N N1 N2 i fr = Ok fr1 \<Longrightarrow>
   slices_loop srt' grow k N N1 N2 i fr' = Ok fr1' \<Longrightarrow>
     same_frame fr fr' \<Longrightarrow> same_frame fr1 fr1'"
proof (induction srt grow k N N1 N2 i fr arbitrary: fr' rule: slices_loop.induct)
  case (1 srt grow k N N1 N2 i r n live)
  obtain r' n' live' where fr': "fr' = (r', n', live')" by (cases fr') auto
  from "1.prems"(3) fr' have n: "strip n = strip n'" and sh: "same_shape r r'" and lv: "live = live'"
    by simp_all
  note f = strip_fields[OF n]
  show ?case
  proof (cases "i < N")
    case True
    define r1 where "r1 = r\<lparr>points := srt Y (start n + i) (start n + minInt (i + N1) N) N2 (points r)\<rparr>"
    define r1' where "r1' = r'\<lparr>points := srt' Y (start n' + i) (start n' + minInt (i + N1) N) N2 (points r')\<rparr>"
    from slices_loop_Ok[OF "1.prems"(1) True] obtain fr2 where
      pos: "0 < N1" and
      c: "children_loop grow k N2 (minInt (i + N1) N) i (int (length (nodes r))) (r1, n, live) = Ok fr2" and
      l: "slices_loop srt grow k N N1 N2 (i + N1) fr2 = Ok fr1"
      unfolding r1_def by blast
    from slices_loop_Ok[OF "1.prems"(2)[unfolded fr'] True] obtain fr2' where
      c': "children_loop grow k N2 (minInt (i + N1) N) i (int (length (nodes r'))) (r1', n', live') = Ok fr2'" and
      l': "slices_loop srt' grow k N N1 N2 (i + N1) fr2' = Ok fr1'"
      unfolding r1'_def by blast
    have len: "length (nodes r') = length (nodes r)"
      using same_shape_length[OF sh] by simp
    have "same_frame (r1, n, live) (r1', n', live')"
      using sh n lv by (simp add: r1_def r1'_def)
    from same_children_loop[OF c c'[unfolded len] this] have sf: "same_frame fr2 fr2'" .
    have c0: "children_loop grow k N2 (minInt (i + N1) N) i (int (length (nodes r1))) (r1, n, live) = Ok fr2"
      using c by (simp add: r1_def)
    from "1.IH"[OF True pos refl refl refl c0[unfolded r1_def] l l' sf] show ?thesis .
  next
    case False
    with "1.prems" fr' show ?thesis by (simp add: slices_loop.simps)
  qed
qed


lemma buildNodeDownwards_Ok:
  assumes "buildNodeDownwards srt grow r k s = Ok (r1, d)"
  shows "\<exists>n. node_at r k = Ok n \<and>
     ((isLeaf n \<and> r1 = r \<and> d = 0)
      \<or> (\<not> isLeaf n \<and> end' n - start n \<le> MAX_ENTRIES (options r)
          \<and> (\<exists>n1 l1. setLeafNode grow k (r, n, True) = Ok (r1, n1, l1)) \<and> d = - 1)
      \<or> (\<not> isLeaf n \<and> \<not> end' n - start n \<le> MAX_ENTRIES (options r)
          \<and> (\<exists>p n1 l1.
                slices_loop srt grow k (end' n - start n)
                  (slice_N1 (end' n - start n) (MAX_ENTRIES (options r)) (height n))
                  (slice_N2 (end' n - start n) (MAX_ENTRIES (options r)) (height n))
                  0 (r\<lparr>points := p\<rparr>, n, True) = Ok (r1, n1, l1)
                \<and> d = childrenLength n1 - 1)))"
proof -
  from assms obtain n where n: "node_at r k = Ok n"
    by (auto simp: buildNodeDownwards_def obind_eq_Ok)
  have rp: "r = r\<lparr>points := points r\<rparr>" by simp
  show ?thesis
  proof (cases "isLeaf n")
    case True
    with assms n show ?thesis by (auto simp: buildNodeDownwards_def)
  next
    case nl: False
    show ?thesis
    proof (cases "end' n - start n \<le> MAX_ENTRIES (options r)")
      case True
      with assms n nl show ?thesis
        by (auto simp: buildNodeDownwards_def obind_eq_Ok)
    next
      case False
      show ?thesis
      proof (cases s)
        case True
        with assms n nl False have "\<exists>n1 l1.
            slices_loop srt grow k (end' n - start n)
              (slice_N1 (end' n - start n) (MAX_ENTRIES (options r)) (height n))
              (slice_N2 (end' n - start n) (MAX_ENTRIES (options r)) (height n))
              0 (r, n, True) = Ok (r1, n1, l1) \<and> d = childrenLength n1 - 1"
          by (auto simp: buildNodeDownwards_def obind_eq_Ok Let_def slice_N1_def slice_N2_def)
        then show ?thesis using n nl False by (metis rp)
      next
        case sF: False
        with assms n nl False have "\<exists>p n1 l1.
            slices_loop srt grow k (end' n - start n)
              (slice_N1 (end' n - start n) (MAX_ENTRIES (options r)) (height n))
              (slice_N2 (end' n - start n) (MAX_ENTRIES (options r)) (height n))
              0 (r\<lparr>points := p\<rparr>, n, True) = Ok (r1, n1, l1) \<and> d = childrenLength n1 - 1"
          by (auto simp: buildNodeDownwards_def obind_eq_Ok Let_def slice_N1_def slice_N2_def)
        then show ?thesis using n nl False by blast
      qed
    qed
  qed
qed


lemma same_shape_node_at:
  assumes "same_shape r r'" and "node_at r k = Ok n" and "node_at r' k = Ok n'"
  shows "strip n = strip n'"
proof -
  from assms(2) have k: "nat k < length (nodes r)" and n: "n = nodes r ! nat k"
    by (auto simp: node_at_def split: if_splits)
  from assms(3) have k': "nat k < length (nodes r')" and n': "n' = nodes r' ! nat k"
    by (auto simp: node_at_def split: if_splits)
  from assms(1) have "skeleton r ! nat k = skeleton r' ! nat k" by (simp add: same_shape_def)
  then show ?thesis using k k' n n' by (simp add: skeleton_def)
qed

lemma same_setLeafNode:
  assumes "setLeafNode grow k fr = Ok fr1" and "setLeafNode grow k fr' = Ok fr1'"
    and "same_frame fr fr'"
  shows "same_frame fr1 fr1'"
proof -
  define fr2 where "fr2 = write_n k (\<lambda>m. m\<lparr>height := 1\<rparr>)
     (write_n k (\<lambda>m. m\<lparr>childrenLength := end' m - start m\<rparr>) fr)"
  define fr2' where "fr2' = write_n k (\<lambda>m. m\<lparr>height := 1\<rparr>)
     (write_n k (\<lambda>m. m\<lparr>childrenLength := end' m - start m\<rparr>) fr')"
  have sf: "same_frame fr2 fr2'"
    unfolding fr2_def fr2'_def
  proof (rule same_frame_write, rule same_frame_write)
    show "same_frame fr fr'" by (rule assms(3))
  next
    fix m m' :: Node
    assume "strip m = strip m'"
    then show "strip (m\<lparr>childrenLength := end' m - start m\<rparr>)
        = strip (m'\<lparr>childrenLength := end' m' - start m'\<rparr>)"
      by (rule strip_writes(3))
  next
    fix m m' :: Node
    assume "strip m = strip m'"
    then show "strip (m\<lparr>height := 1\<rparr>) = strip (m'\<lparr>height := 1\<rparr>)"
      by (rule strip_writes(4))
  qed
  then have len: "length (nodes (fst fr2)) = length (nodes (fst fr2'))"
    by (cases fr2, cases fr2') (auto dest: same_shape_length)
  from assms(1) have l: "setLeafNode_loop grow k 0 (int (length (nodes (fst fr2)))) fr2 = Ok fr1"
    by (simp add: setLeafNode_def Let_def fr2_def)
  from assms(2) have "setLeafNode_loop grow k 0 (int (length (nodes (fst fr2')))) fr2' = Ok fr1'"
    by (simp add: setLeafNode_def Let_def fr2'_def)
  then have l': "setLeafNode_loop grow k 0 (int (length (nodes (fst fr2)))) fr2' = Ok fr1'"
    using len by simp
  from same_setLeafNode_loop[OF l l' sf] show ?thesis .
qed

lemma same_buildNodeDownwards:
  assumes a: "buildNodeDownwards srt grow r k s = Ok (r1, d)"
    and a': "buildNodeDownwards srt' grow r' k s' = Ok (r1', d')"
    and sh: "same_shape r r'"
  shows "same_shape r1 r1' \<and> d = d'"
proof -
  from buildNodeDownwards_Ok[OF a] obtain n where n: "node_at r k = Ok n" and
    c: "(isLeaf n \<and> r1 = r \<and> d = 0)
      \<or> (\<not> isLeaf n \<and> end' n - start n \<le> MAX_ENTRIES (options r)
          \<and> (\<exists>n1 l1. setLeafNode grow k (r, n, True) = Ok (r1, n1, l1)) \<and> d = - 1)
      \<or> (\<not> isLeaf n \<and> \<not> end' n - start n \<le> MAX_ENTRIES (options r)
          \<and> (\<exists>p n1 l1.
                slices_loop srt grow k (end' n - start n)
                  (slice_N1 (end' n - start n) (MAX_ENTRIES (options r)) (height n))
                  (slice_N2 (end' n - start n) (MAX_ENTRIES (options r)) (height n))
                  0 (r\<lparr>points := p\<rparr>, n, True) = Ok (r1, n1, l1)
                \<and> d = childrenLength n1 - 1))"
    by blast
  from buildNodeDownwards_Ok[OF a'] obtain n' where n': "node_at r' k = Ok n'" and
    c': "(isLeaf n' \<and> r1' = r' \<and> d' = 0)
      \<or> (\<not> isLeaf n' \<and> end' n' - start n' \<le> MAX_ENTRIES (options r')
          \<and> (\<exists>n1 l1. setLeafNode grow k (r', n', True) = Ok (r1', n1, l1)) \<and> d' = - 1)
      \<or> (\<not> isLeaf n' \<and> \<not> end' n' - start n' \<le> MAX_ENTRIES (options r')
          \<and> (\<exists>p n1 l1.
                slices_loop srt' grow k (end' n' - start n')
                  (slice_N1 (end' n' - start n') (MAX_ENTRIES (options r')) (height n'))
                  (slice_N2 (end' n' - start n') (MAX_ENTRIES (options r')) (height n'))
                  0 (r'\<lparr>points := p\<rparr>, n', True) = Ok (r1', n1, l1)
                \<and> d' = childrenLength n1 - 1))"
    by blast
  have st: "strip n = strip n'" by (rule same_shape_node_at[OF sh n n'])
  note f = strip_fields[OF st]
  from sh have opt: "options r' = options r" by (simp add: same_shape_def)
  have sf0: "same_frame (r, n, True) (r', n', True)" using sh st by simp
  show ?thesis
  proof (cases "isLeaf n")
    case True
    with c c' f sh show ?thesis by auto
  next
    case nl: False
    show ?thesis
    proof (cases "end' n - start n \<le> MAX_ENTRIES (options r)")
      case True
      with c nl obtain n1 l1 where
        l: "setLeafNode grow k (r, n, True) = Ok (r1, n1, l1)" and d: "d = - 1" by auto
      from c' nl True f opt obtain n1' l1' where
        l': "setLeafNode grow k (r', n', True) = Ok (r1', n1', l1')" and d': "d' = - 1" by auto
      from same_setLeafNode[OF l l' sf0] d d' show ?thesis by simp
    next
      case False
      with c nl obtain p n1 l1 where
        l: "slices_loop srt grow k (end' n - start n)
              (slice_N1 (end' n - start n) (MAX_ENTRIES (options r)) (height n))
              (slice_N2 (end' n - start n) (MAX_ENTRIES (options r)) (height n))
              0 (r\<lparr>points := p\<rparr>, n, True) = Ok (r1, n1, l1)" and
        d: "d = childrenLength n1 - 1"
        by auto
      from c' nl False f opt obtain p' n1' l1' where
        l': "slices_loop srt' grow k (end' n - start n)
              (slice_N1 (end' n - start n) (MAX_ENTRIES (options r)) (height n))
              (slice_N2 (end' n - start n) (MAX_ENTRIES (options r)) (height n))
              0 (r'\<lparr>points := p'\<rparr>, n', True) = Ok (r1', n1', l1')" and
        d': "d' = childrenLength n1' - 1"
        by auto
      have "same_frame (r\<lparr>points := p\<rparr>, n, True) (r'\<lparr>points := p'\<rparr>, n', True)"
        using sh st by simp
      from same_slices_loop[OF l l' this] have "same_shape r1 r1'" "strip n1 = strip n1'"
        by simp_all
      with d d' strip_fields(3)[of n1 n1'] show ?thesis by simp
    qed
  qed
qed

lemma same_build_loop:
  "build_loop fuel srt grow r i rem s = Ok r1 \<Longrightarrow> build_loop fuel srt' grow r' i rem s' = Ok r1' \<Longrightarrow>
     same_shape r r' \<Longrightarrow> same_shape r1 r1'"
proof (induction fuel arbitrary: r r' i rem s s')
  case 0
  then show ?case by (auto simp: build_loop.simps[of 0] split: if_splits)
next
  case (Suc f)
  show ?case
  proof (cases "rem > 0")
    case True
    with Suc.prems(1) obtain r2 d where
      b: "buildNodeDownwards srt grow r i s = Ok (r2, d)" and
      l: "build_loop f srt grow r2 (i + 1) (rem + d) False = Ok r1"
      by (auto simp: build_loop.simps[of "Suc f"] obind_eq_Ok)
    from True Suc.prems(2) obtain r2' d' where
      b': "buildNodeDownwards srt' grow r' i s' = Ok (r2', d')" and
      l': "build_loop f srt' grow r2' (i + 1) (rem + d') False = Ok r1'"
      by (auto simp: build_loop.simps[of "Suc f"] obind_eq_Ok)
    from same_buildNodeDownwards[OF b b' Suc.prems(3)] have sh: "same_shape r2 r2'" and d: "d = d'"
      by simp_all
    from Suc.IH[OF l l'[folded d] sh] show ?thesis .
  next
    case False
    with Suc.prems show ?thesis by (auto simp: build_loop.simps[of "Suc f"])
  qed
qed


text \<open>
  So the failure on six points with the fan-out cap 2 does not depend on the points or on
  the sorter: whatever they are, the loop of \<^verbatim>\<open>build\<close> ends with an arena of the shape of
  \<open>arena6\<close>, and \<^verbatim>\<open>Load\<close> does not return (\<^verbatim>\<open>math.Log\<close> being such that line 176 gives the
  root the height 3, as it does in \<^verbatim>\<open>float64\<close>: the quotient is about 2.58).
\<close>

lemma build_loop_six_points_shape:
  assumes "Len pts = 6"
    and "build_loop fuel srt grow
           (tree_of 2 True pts [inner [0, 0, 0, 0, 0, 0, 0, 0, 0] 0 3 0 6 zeroBBox] 12) 0 1 s = Ok r4"
  shows "skeleton r4 = skeleton (arena6 grow)"
proof -
  have "build_loop (fuel + 7) srt grow
      (tree_of 2 True pts [inner [0, 0, 0, 0, 0, 0, 0, 0, 0] 0 3 0 6 zeroBBox] 12) 0 1 s = Ok r4"
    by (rule build_loop_mono[OF assms(2)])
  moreover have "build_loop (fuel + 7) sortRange grow
      (tree_of 2 True pts6 [inner [0, 0, 0, 0, 0, 0, 0, 0, 0] 0 3 0 6 zeroBBox] 12) 0 1 False
      = Ok (arena6 grow)"
    using build_loop_pts6[of fuel grow False] by (simp add: numeral_eq_Suc)
  moreover have "same_shape
      (tree_of 2 True pts [inner [0, 0, 0, 0, 0, 0, 0, 0, 0] 0 3 0 6 zeroBBox] 12)
      (tree_of 2 True pts6 [inner [0, 0, 0, 0, 0, 0, 0, 0, 0] 0 3 0 6 zeroBBox] 12)"
    by (simp add: same_shape_def skeleton_def tree_of_sel)
  ultimately have "same_shape r4 (arena6 grow)" by (rule same_build_loop)
  then show ?thesis by (simp add: same_shape_def)
qed

lemma Load_six_points_any_sorter:
  assumes "Len pts = 6" and "\<lceil>fdiv (Log 6) (Log 2)\<rceil> = 3"
  shows "Load fuel srt grow Log (tree_of 2 False [] [] 0) pts \<noteq> Ok r'"
proof
  assume "Load fuel srt grow Log (tree_of 2 False [] [] 0) pts = Ok r'"
  with assms obtain r4 res where
    l: "build_loop fuel srt grow
          (tree_of 2 True pts [inner [0, 0, 0, 0, 0, 0, 0, 0, 0] 0 3 0 6 zeroBBox] 12) 0 1 False
        = Ok r4" and
    c: "computeBBoxDownwards fuel r4 0 = Ok res"
    by (auto simp: Load_def load_def tree_of_sel build_start float64_exact obind_eq_Ok)
  from build_loop_six_points_shape[OF assms(1) l] computeBBoxDownwards_arena6[of r4 grow fuel res] c
  show False by simp
qed


subsection \<open>Six points with fan-out cap 2: the stale child slot\<close>

text \<open>
  C10. The claim: for every input and every fan-out cap from 2 to 9, every stored child
  index refers to a node of the arena with an index greater than that of its parent. For
  six points and the fan-out cap 2, \<^verbatim>\<open>build\<close> runs its loop on the arena that holds the
  root alone, in a slice of capacity 12; the loop ends with an arena of 13 nodes in which
  node 6 has one child, and its child slot holds 0. The leaf of that node is node 12: its
  \<^verbatim>\<open>append\<close> moved the arena to a new backing array, and the index was written through the
  pointer into the old one. (\<^verbatim>\<open>math.Log\<close> is taken as the exact logarithm here; the
  quotient of line 176 is about 2.58, and its ceiling is 3 in \<^verbatim>\<open>float64\<close> too.)
\<close>

theorem build_six_points_stale_child:
  "build fuel sortRange grow ln (tree_of 2 True [] [] 0) pts6 False =
     obind (build_loop fuel sortRange grow
              (tree_of 2 True pts6 [inner [0, 0, 0, 0, 0, 0, 0, 0, 0] 0 3 0 6 zeroBBox] 12)
              0 1 False)
       (\<lambda>r4. obind (computeBBoxDownwards fuel r4 0) (\<lambda>(r5, bbox). Ok r5))
   \<and> build_loop (Suc (Suc (Suc (Suc (Suc (Suc (Suc f))))))) sortRange grow
        (tree_of 2 True pts6 [inner [0, 0, 0, 0, 0, 0, 0, 0, 0] 0 3 0 6 zeroBBox] 12) 0 1 False
      = Ok (arena6 grow)
   \<and> length (nodes (arena6 grow)) = 13
   \<and> isLeaf (nodes (arena6 grow) ! 6) = False
   \<and> childrenLength (nodes (arena6 grow) ! 6) = 1
   \<and> children (nodes (arena6 grow) ! 6) ! 0 = 0
   \<and> nodes (arena6 grow) ! 12 = leaf_at 5 5 5"
  using build_pts6[of fuel grow False] build_loop_pts6[of f grow False]
  by (simp add: arena6_def tree_of_sel inner_sel)


subsection \<open>The height of the root\<close>





subsection \<open>The leaves of a built tree\<close>











lemma grows_core:
  "grows k (r, n, live) (r', n', live') cs \<Longrightarrow> core n' = core n"
  by simp













lemma frame_ok_points: "frame_ok k (r\<lparr>points := p\<rparr>, n, live) = frame_ok k (r, n, live)"
  by simp


































end
